theory Spec2Isabelle
  imports Main "HOL-Library.Multiset" "HOL-Library.Char_ord" "HOL-Library.List_Lexorder"
begin

section \<open>Data model of \<open>lib/osv/models.py\<close>\<close>

text \<open>
  Python exceptions are values. \<open>ValueError\<close> carries its message, since the source
  distinguishes its failures by message only. \<open>AttributeError\<close> is what Python raises
  when \<open>self.key.id()\<close> is evaluated on an unset key; \<open>IndexError\<close> is
  \<open>self.affected_packages[0]\<close> on an empty list.
\<close>

datatype error =
    ValueError string
  | IndexError
  | AttributeError
  | UnknownEcosystem

text \<open>
  \<open>class AffectedEvent(ndb.Model)\<close>: \<open>type\<close> and \<open>value\<close>. Equality of model
  instances is structural, which is the equality of the record.
\<close>

record AffectedEvent =
  ev_type :: string
  ev_value :: string

text \<open>\<open>class AffectedRange2(ndb.Model)\<close>; an unset \<open>repo_url\<close> is \<open>None\<close>.\<close>

record AffectedRange2 =
  r_type :: string
  repo_url :: "string option"
  events :: "AffectedEvent list"

record Package =
  ecosystem :: string
  name :: string
  purl :: string

record AffectedPackage =
  package :: Package
  ranges :: "AffectedRange2 list"
  versions :: "string list"

subsection \<open>Property validators\<close>


definition check_valid_range_type :: "string \<Rightarrow> error + unit" where
  "check_valid_range_type v =
     (if v \<notin> set [''GIT'', ''SEMVER'', ''ECOSYSTEM'']
      then Inl (ValueError (''Invalid range type: '' @ v)) else Inr ())"

definition check_valid_event_type :: "string \<Rightarrow> error + unit" where
  "check_valid_event_type v =
     (if v \<notin> set [''introduced'', ''fixed'', ''limit'']
      then Inl (ValueError (''Invalid event type: '' @ v)) else Inr ())"

section \<open>\<open>sorted_events\<close>\<close>

text \<open>
  \<open>list.remove(x)\<close> deletes the first element equal to \<open>x\<close> and raises
  \<open>ValueError\<close> when there is none.
\<close>

definition list_remove :: "'a \<Rightarrow> 'a list \<Rightarrow> error + 'a list" where
  "list_remove x xs =
     (if x \<in> set xs then Inr (remove1 x xs)
      else Inl (ValueError ''list.remove(x): x not in list''))"

text \<open>
  The loop \<open>for event in events.copy(): ...\<close> of \<open>sorted_events\<close>. It runs over a
  snapshot of the list (first argument) and carries \<open>zero_event\<close> and the list
  \<open>events\<close> that it mutates.
\<close>

fun remove_zeros ::
  "AffectedEvent list \<Rightarrow> AffectedEvent option \<times> AffectedEvent list \<Rightarrow>
   error + AffectedEvent option \<times> AffectedEvent list" where
  "remove_zeros [] st = Inr st"
| "remove_zeros (event # rest) (zero_event, evs) =
     (if ev_value event = ''0''
      then (case list_remove event evs of
              Inl err \<Rightarrow> Inl err
            | Inr evs' \<Rightarrow> remove_zeros rest (Some event, evs'))
      else remove_zeros rest (zero_event, evs))"

text \<open>
  Modelled from the spec: the comparators of the module \<open>ecosystems\<close>, which is not
  among the sources. A comparator gives a totally ordered sort key for a version string;
  the one for semantic versions is built in, the others are looked up by ecosystem name,
  and the lookup fails with \<open>UnknownEcosystem\<close> if none is registered. Both are
  parameters: \<open>semver_key\<close> is \<open>ecosystems.SemverEcosystem().sort_key\<close> and
  \<open>ecosystems_get\<close> is the lookup \<open>ecosystems.get\<close>, yielding the \<open>sort_key\<close> of the
  helper found. Python's \<open>sorted\<close> is stable, as is \<^const>\<open>sort_key\<close>.

  For a range type other than \<open>GIT\<close> the call removes the sentinel events from the list
  it was given, in place, and returns a fresh list. The result is therefore a pair: the
  returned list, and the caller's list as the call leaves it. For \<open>GIT\<close> the returned
  list is the caller's list itself.
\<close>

definition sorted_events ::
  "(string \<Rightarrow> 'k::linorder) \<Rightarrow> (string \<Rightarrow> (string \<Rightarrow> 'k) option) \<Rightarrow>
   string \<Rightarrow> string \<Rightarrow> AffectedEvent list \<Rightarrow>
   error + AffectedEvent list \<times> AffectedEvent list" where
  "sorted_events semver_key ecosystems_get eco range_type evs =
     (if range_type = ''GIT'' then Inr (evs, evs)
      else
        (case (if range_type = ''SEMVER'' then Some semver_key else ecosystems_get eco) of
           None \<Rightarrow> Inl UnknownEcosystem
         | Some helper_key \<Rightarrow>
             (case remove_zeros evs (None, evs) of
                Inl err \<Rightarrow> Inl err
              | Inr (zero_event, evs') \<Rightarrow>
                  (let srt = sort_key (\<lambda>e. helper_key (ev_value e)) evs'
                   in Inr (case zero_event of None \<Rightarrow> srt | Some z \<Rightarrow> z # srt, evs')))))"

section \<open>The legacy (pre-0.8) exchange format\<close>

text \<open>
  Modelled from the spec: the range type enum and the messages \<open>AffectedRange\<close> and
  \<open>Affects\<close> of the exchange payload (module \<open>vulnerability_pb2\<close> is not among the
  sources). A legacy range is \<open>{type enum, repository, introduced, fixed}\<close> with
  \<open>type\<close> one of \<open>GIT\<close>, \<open>SEMVER\<close>, \<open>ECOSYSTEM\<close>; string fields that are not
  set read as the empty string. \<open>Type_Name\<close> is \<open>AffectedRange.Type.Name\<close> and
  \<open>Type_Value\<close> is \<open>AffectedRange.Type.Value\<close>, which raises \<open>ValueError\<close> on a
  name that is not one of the enum's.
\<close>

datatype pb_Type = GIT | SEMVER | ECOSYSTEM

fun Type_Name :: "pb_Type \<Rightarrow> string" where
  "Type_Name GIT = ''GIT''"
| "Type_Name SEMVER = ''SEMVER''"
| "Type_Name ECOSYSTEM = ''ECOSYSTEM''"

definition Type_Value :: "string \<Rightarrow> error + pb_Type" where
  "Type_Value s =
     (if s = ''GIT'' then Inr GIT
      else if s = ''SEMVER'' then Inr SEMVER
      else if s = ''ECOSYSTEM'' then Inr ECOSYSTEM
      else Inl (ValueError (''Enum Type has no value defined for name '' @ s)))"

record pb_AffectedRange =
  pb_type :: pb_Type
  repo :: string
  introduced :: string
  fixed :: string

record pb_Affects =
  affects_versions :: "string list"
  affects_ranges :: "pb_AffectedRange list"

text \<open>
  The payload \<open>Vulnerability\<close>, with the fields that \<open>update_from_vulnerability\<close>
  copies into the fields modelled here; \<open>HasField\<close> of a timestamp is \<open>Some\<close>.
  Its \<open>references\<close>, \<open>database_specific\<close> and \<open>ecosystem_specific\<close> are copied by
  the source into fields that no function below reads, and are left out.
\<close>

record Vulnerability =
  v_summary :: string
  v_details :: string
  modified :: "nat option"
  published :: "nat option"
  v_withdrawn :: "nat option"
  v_package :: Package
  v_aliases :: "string list"
  v_related :: "string list"
  affects :: pb_Affects

section \<open>The record \<open>Bug\<close>\<close>

text \<open>
  \<open>class Bug(ndb.Model)\<close>. A scalar property that is not set is \<open>None\<close>; a date is a
  number. \<open>key\<close> holds the id of the entity's key. The repeated properties
  \<open>ecosystem\<close> and \<open>purl\<close> of \<open>Bug\<close> are \<open>bug_ecosystem\<close> and \<open>bug_purl\<close> here, the
  plain names being those of \<open>Package\<close>.
\<close>

record Bug =
  db_id :: "string option"
  key :: "string option"
  aliases :: "string list"
  related :: "string list"
  timestamp :: "nat option"
  last_modified :: "nat option"
  withdrawn :: "nat option"
  source_id :: "string option"
  summary :: "string option"
  details :: "string option"
  severity :: "string option"
  project :: "string list"
  bug_ecosystem :: "string list"
  bug_purl :: "string list"
  search_indices :: "string list"
  affected_fuzzy :: "string list"
  semver_fixed_indexes :: "string list"
  has_affected :: bool
  is_fixed :: bool
  affected_packages :: "AffectedPackage list"
  source :: "string option"

text \<open>Python truthiness of an optional string: \<open>None\<close> and \<open>''\<close> are false.\<close>

fun truthy :: "string option \<Rightarrow> bool" where
  "truthy None = False"
| "truthy (Some s) = (s \<noteq> [])"


text \<open>
  The constructors \<open>AffectedEvent(type=..., value=...)\<close> and
  \<open>AffectedRange2(type=..., events=...)\<close>, which validate \<open>type\<close>.
\<close>

definition new_AffectedEvent :: "string \<Rightarrow> string \<Rightarrow> error + AffectedEvent" where
  "new_AffectedEvent t v =
     (case check_valid_event_type t of
        Inl err \<Rightarrow> Inl err
      | Inr _ \<Rightarrow> Inr \<lparr>ev_type = t, ev_value = v\<rparr>)"

definition new_AffectedRange2 :: "string \<Rightarrow> AffectedEvent list \<Rightarrow> error + AffectedRange2" where
  "new_AffectedRange2 t evs =
     (case check_valid_range_type t of
        Inl err \<Rightarrow> Inl err
      | Inr _ \<Rightarrow> Inr \<lparr>r_type = t, repo_url = None, events = evs\<rparr>)"

section \<open>\<open>Bug._get_pre_0_8_affects\<close>\<close>

text \<open>
  \<open>new_range()\<close>: an empty legacy pair carrying the type and repository of the range.
  \<open>repo=None\<close> leaves the field at its default, the empty string.
\<close>

definition new_range :: "AffectedRange2 \<Rightarrow> error + pb_AffectedRange" where
  "new_range r =
     (case Type_Value (r_type r) of
        Inl err \<Rightarrow> Inl err
      | Inr t \<Rightarrow>
          Inr \<lparr>pb_type = t, repo = (case repo_url r of None \<Rightarrow> [] | Some u \<Rightarrow> u),
               introduced = [], fixed = []\<rparr>)"

text \<open>
  The body of the loop over the sorted events. The state is \<open>cur_range\<close> and
  \<open>affects.ranges\<close>. \<open>fresh\<close> is the value of \<open>new_range()\<close>, which depends on the
  range only and is the same at every call; the expression at lines 482 to 485 builds the
  same message.
\<close>

definition pair_event ::
  "string \<Rightarrow> pb_AffectedRange \<Rightarrow> AffectedEvent \<Rightarrow>
   pb_AffectedRange \<times> pb_AffectedRange list \<Rightarrow> pb_AffectedRange \<times> pb_AffectedRange list" where
  "pair_event range_type fresh event st =
     (let (cur0, out0) = st;
          (cur2, out2) =
            (if ev_type event = ''introduced'' then
               (let (cur1, out1) =
                      (if introduced cur0 \<noteq> [] \<and> range_type = ''GIT''
                       then (fresh, out0 @ [cur0]) else (cur0, out0))
                in (if introduced cur1 = []
                    then cur1\<lparr>introduced := (if ev_value event = ''0'' then [] else ev_value event)\<rparr>
                    else cur1,
                    out1))
             else (cur0, out0))
      in if ev_type event = ''fixed''
         then (fresh, out2 @ [cur2\<lparr>fixed := ev_value event\<rparr>])
         else (cur2, out2))"

text \<open>
  One iteration of \<open>for affected_range in affected_package.ranges\<close>: it returns the
  range as the call of \<open>sorted_events\<close> leaves it, and \<open>affects.ranges\<close>.
\<close>

definition range_pairs ::
  "(string \<Rightarrow> 'k::linorder) \<Rightarrow> (string \<Rightarrow> (string \<Rightarrow> 'k) option) \<Rightarrow> string \<Rightarrow>
   AffectedRange2 \<Rightarrow> pb_AffectedRange list \<Rightarrow> error + AffectedRange2 \<times> pb_AffectedRange list" where
  "range_pairs semver_key ecosystems_get eco r out =
     (case new_range r of
        Inl err \<Rightarrow> Inl err
      | Inr fresh \<Rightarrow>
          (case sorted_events semver_key ecosystems_get eco (r_type r) (events r) of
             Inl err \<Rightarrow> Inl err
           | Inr (srt, evs') \<Rightarrow>
               (let (cur, out') = fold (pair_event (r_type r) fresh) srt (fresh, out)
                in Inr (r\<lparr>events := evs'\<rparr>,
                        if introduced cur \<noteq> [] then out' @ [cur] else out'))))"

fun ranges_pairs ::
  "(string \<Rightarrow> 'k::linorder) \<Rightarrow> (string \<Rightarrow> (string \<Rightarrow> 'k) option) \<Rightarrow> string \<Rightarrow>
   AffectedRange2 list \<Rightarrow> pb_AffectedRange list \<Rightarrow>
   error + AffectedRange2 list \<times> pb_AffectedRange list" where
  "ranges_pairs semver_key ecosystems_get eco [] out = Inr ([], out)"
| "ranges_pairs semver_key ecosystems_get eco (r # rs) out =
     (case range_pairs semver_key ecosystems_get eco r out of
        Inl err \<Rightarrow> Inl err
      | Inr (r', out') \<Rightarrow>
          (case ranges_pairs semver_key ecosystems_get eco rs out' of
             Inl err \<Rightarrow> Inl err
           | Inr (rs', out'') \<Rightarrow> Inr (r' # rs', out'')))"

text \<open>
  The method returns \<open>affects\<close>; the record comes back too, since sorting has removed
  the sentinel events from the event lists of its ranges that are not \<open>GIT\<close>.
\<close>

definition get_pre_0_8_affects ::
  "(string \<Rightarrow> 'k::linorder) \<Rightarrow> (string \<Rightarrow> (string \<Rightarrow> 'k) option) \<Rightarrow> Bug \<Rightarrow>
   error + pb_Affects \<times> Bug" where
  "get_pre_0_8_affects semver_key ecosystems_get b =
     (case affected_packages b of
        [] \<Rightarrow> Inl IndexError
      | affected_package # rest \<Rightarrow>
          (case ranges_pairs semver_key ecosystems_get (ecosystem (package affected_package))
                  (ranges affected_package) [] of
             Inl err \<Rightarrow> Inl err
           | Inr (rs', out) \<Rightarrow>
               Inr (\<lparr>affects_versions = versions affected_package, affects_ranges = out\<rparr>,
                    b\<lparr>affected_packages := affected_package\<lparr>ranges := rs'\<rparr> # rest\<rparr>)))"

section \<open>\<open>Bug.update_from_vulnerability\<close>\<close>

text \<open>
  \<open>events_by_type\<close> is a dictionary from \<open>(type name, repo)\<close> to a list of events.
  A Python dictionary iterates in insertion order, so it is an association list with
  one entry per key. \<open>dict_setdefault\<close> adds a key at the end when it is absent;
  \<open>dict_store\<close> puts back, at the place of the key, the list that the source changes
  in place through the reference it got from \<open>setdefault\<close>.
\<close>

type_synonym events_by_type = "((string \<times> string) \<times> AffectedEvent list) list"

fun dict_setdefault :: "'k \<Rightarrow> 'v \<Rightarrow> ('k \<times> 'v) list \<Rightarrow> ('k \<times> 'v) list" where
  "dict_setdefault k v [] = [(k, v)]"
| "dict_setdefault k v (p # ps) = (if fst p = k then p # ps else p # dict_setdefault k v ps)"

fun dict_store :: "'k \<Rightarrow> 'v \<Rightarrow> ('k \<times> 'v) list \<Rightarrow> ('k \<times> 'v) list" where
  "dict_store k v [] = []"
| "dict_store k v (p # ps) = (if fst p = k then (k, v) # ps else p # dict_store k v ps)"

text \<open>\<open>if e not in events: events.append(e)\<close>\<close>

definition append_new :: "'a \<Rightarrow> 'a list \<Rightarrow> 'a list" where
  "append_new e evs = (if e \<notin> set evs then evs @ [e] else evs)"

text \<open>The body of \<open>for affected_range in vulnerability.affects.ranges\<close>.\<close>

definition merge_range :: "pb_AffectedRange \<Rightarrow> events_by_type \<Rightarrow> error + events_by_type" where
  "merge_range affected_range d =
     (let k = (Type_Name (pb_type affected_range), repo affected_range);
          d1 = dict_setdefault k [] d;
          evs = (case map_of d1 k of None \<Rightarrow> [] | Some l \<Rightarrow> l)
      in case new_AffectedEvent ''introduced''
                (if introduced affected_range = [] then ''0'' else introduced affected_range) of
           Inl err \<Rightarrow> Inl err
         | Inr intro \<Rightarrow>
             (let evs1 = append_new intro evs
              in if fixed affected_range \<noteq> [] then
                   (case new_AffectedEvent ''fixed'' (fixed affected_range) of
                      Inl err \<Rightarrow> Inl err
                    | Inr fx \<Rightarrow> Inr (dict_store k (append_new fx evs1) d1))
                 else Inr (dict_store k evs1 d1)))"

fun merge_ranges :: "pb_AffectedRange list \<Rightarrow> events_by_type \<Rightarrow> error + events_by_type" where
  "merge_ranges [] d = Inr d"
| "merge_ranges (affected_range # rest) d =
     (case merge_range affected_range d of
        Inl err \<Rightarrow> Inl err
      | Inr d' \<Rightarrow> merge_ranges rest d')"

text \<open>The loop \<open>for (range_type, repo_url), events in events_by_type.items()\<close>.\<close>

fun build_ranges :: "events_by_type \<Rightarrow> AffectedRange2 list \<Rightarrow> error + AffectedRange2 list" where
  "build_ranges [] rs = Inr rs"
| "build_ranges (((range_type, repo_url'), evs) # rest) rs =
     (case new_AffectedRange2 range_type evs of
        Inl err \<Rightarrow> Inl err
      | Inr affected_range \<Rightarrow>
          build_ranges rest
            (rs @ [if range_type = ''GIT'' \<and> repo_url' \<noteq> []
                   then affected_range\<lparr>repo_url := Some repo_url'\<rparr>
                   else affected_range]))"

text \<open>\<open>AffectedPackage()\<close>; its package is assigned before it is read.\<close>

definition empty_AffectedPackage :: AffectedPackage where
  "empty_AffectedPackage =
     \<lparr>package = \<lparr>ecosystem = [], name = [], purl = []\<rparr>, ranges = [], versions = []\<rparr>"

definition update_from_vulnerability :: "Bug \<Rightarrow> Vulnerability \<Rightarrow> error + Bug" where
  "update_from_vulnerability b v =
     (let b1 = b\<lparr>summary := Some (v_summary v), details := Some (v_details v)\<rparr>;
          b2 = (case modified v of None \<Rightarrow> b1 | Some t \<Rightarrow> b1\<lparr>last_modified := Some t\<rparr>);
          b3 = (case published v of None \<Rightarrow> b2 | Some t \<Rightarrow> b2\<lparr>timestamp := Some t\<rparr>);
          b4 = (case v_withdrawn v of None \<Rightarrow> b3 | Some t \<Rightarrow> b3\<lparr>withdrawn := Some t\<rparr>);
          (affected_package, others) =
             (case affected_packages b4 of
                [] \<Rightarrow> (empty_AffectedPackage, [])
              | ap # rest \<Rightarrow> (ap, rest));
          ap1 = affected_package\<lparr>package := v_package v\<rparr>;
          b5 = b4\<lparr>aliases := v_aliases v, related := v_related v\<rparr>;
          ap2 = ap1\<lparr>versions := affects_versions (affects v), ranges := []\<rparr>
      in case merge_ranges (affects_ranges (affects v)) [] of
           Inl err \<Rightarrow> Inl err
         | Inr d \<Rightarrow>
             (case build_ranges d (ranges ap2) of
                Inl err \<Rightarrow> Inl err
              | Inr rs \<Rightarrow> Inr (b5\<lparr>affected_packages := ap2\<lparr>ranges := rs\<rparr> # others\<rparr>)))"

section \<open>\<open>Bug._pre_put_hook\<close>\<close>

text \<open>
  Strings are taken to be ASCII: \<open>str.lower\<close> maps \<open>A\<close> to \<open>Z\<close> onto \<open>a\<close> to \<open>z\<close>,
  a word character of a regular expression is a letter, a digit or the underscore, and
  a digit of a regular expression is a decimal digit. In Python all three follow Unicode;
  the definitions below agree with them on ASCII strings and are not meant for others.
\<close>

definition lower_char :: "char \<Rightarrow> char" where
  "lower_char c =
     (if CHR ''A'' \<le> c \<and> c \<le> CHR ''Z'' then char_of (of_char c + (32::nat)) else c)"

definition is_digit :: "char \<Rightarrow> bool" where
  "is_digit c = (CHR ''0'' \<le> c \<and> c \<le> CHR ''9'')"

definition is_word_char :: "char \<Rightarrow> bool" where
  "is_word_char c =
     ((CHR ''a'' \<le> c \<and> c \<le> CHR ''z'') \<or> (CHR ''A'' \<le> c \<and> c \<le> CHR ''Z'') \<or>
      is_digit c \<or> c = CHR ''_'')"

text \<open>
  \<open>re.split\<close> on runs of non-word characters, as \<open>_tokenize\<close> calls it: the pieces
  of \<open>s\<close> between the maximal runs of characters that are not word characters, the
  empty piece included when \<open>s\<close> starts or ends with such a run. \<open>cur\<close> is the piece
  being read.
\<close>

function split_nonword :: "string \<Rightarrow> string \<Rightarrow> string list" where
  "split_nonword cur [] = [cur]"
| "split_nonword cur (c # cs) =
     (if is_word_char c then split_nonword (cur @ [c]) cs
      else cur # split_nonword [] (dropWhile (\<lambda>x. \<not> is_word_char x) cs))"
  by pat_completeness auto
termination
  by (relation "measure (\<lambda>(cur, s). length s)")
     (auto simp: less_Suc_eq_le length_dropWhile_le)

definition tokenize :: "string \<Rightarrow> string list" where
  "tokenize v =
     (if v = [] then []
      else (let value_lower = map lower_char v
            in split_nonword [] value_lower @ [value_lower]))"

text \<open>
  \<open>Bug.id\<close>. The match of the key id against a leading run of digits holds when the id
  starts with a digit.
\<close>

definition bug_id :: "Bug \<Rightarrow> error + string" where
  "bug_id b =
     (if truthy (db_id b) then Inr (case db_id b of None \<Rightarrow> [] | Some d \<Rightarrow> d)
      else
        (case key b of
           None \<Rightarrow> Inl AttributeError
         | Some k \<Rightarrow>
             (if (case k of [] \<Rightarrow> False | c # _ \<Rightarrow> is_digit c) then Inr (''OSV-'' @ k)
              else Inr k)))"

text \<open>
  The collaborators of the hook that are not among the sources, as parameters:
  \<open>bug.normalize_tags\<close>, \<open>semver_index.normalize\<close>, \<open>utcnow()\<close>,
  \<open>sources.parse_source_id\<close> and \<open>get_source_repository\<close>, of whose result the hook
  reads \<open>db_prefix\<close> only.
\<close>

record SourceRepository =
  db_prefix :: string

record env =
  normalize_tags :: "string list \<Rightarrow> string list"
  semver_normalize :: "string \<Rightarrow> string"
  utcnow :: nat
  parse_source_id :: "string \<Rightarrow> string \<times> string"
  get_source_repository :: "string \<Rightarrow> SourceRepository option"

definition NOT_FIXED_SEMVER :: string where
  "NOT_FIXED_SEMVER = ''999999.999999.999999''"

text \<open>
  The loops over the affected packages, their ranges and their events. The state is the
  record itself and, within a range, \<open>fixed_version\<close>.
\<close>

definition derive_event :: "AffectedEvent \<Rightarrow> Bug \<times> string option \<Rightarrow> Bug \<times> string option" where
  "derive_event event st =
     (if ev_type event = ''fixed'' then ((fst st)\<lparr>is_fixed := True\<rparr>, Some (ev_value event))
      else st)"

definition derive_range :: "env \<Rightarrow> AffectedRange2 \<Rightarrow> Bug \<Rightarrow> Bug" where
  "derive_range en affected_range b =
     (let (b1, fixed_version) = fold derive_event (events affected_range) (b, None);
          b2 = (if r_type affected_range = ''SEMVER'' then
                  (let fixed' = (if truthy fixed_version
                                 then (case fixed_version of None \<Rightarrow> [] | Some f \<Rightarrow> f)
                                 else NOT_FIXED_SEMVER)
                   in b1\<lparr>semver_fixed_indexes :=
                           semver_fixed_indexes b1 @ [semver_normalize en fixed']\<rparr>)
                else b1)
      in b2\<lparr>has_affected :=
               has_affected b2 \<or> r_type affected_range \<in> set [''SEMVER'', ''ECOSYSTEM'']\<rparr>)"

definition derive_package :: "env \<Rightarrow> AffectedPackage \<Rightarrow> Bug \<Rightarrow> Bug" where
  "derive_package en affected_package b =
     (let b1 = b\<lparr>affected_fuzzy :=
                   affected_fuzzy b @ normalize_tags en (versions affected_package)\<rparr>;
          b2 = b1\<lparr>has_affected := has_affected b1 \<or> versions affected_package \<noteq> []\<rparr>
      in fold (derive_range en) (ranges affected_package) b2)"

definition starts_with :: "string \<Rightarrow> string \<Rightarrow> bool" where
  "starts_with s p = (take (length p) s = p)"

text \<open>
  The hook in two parts: \<open>derive_fields\<close> is the derivation (from the search indices to
  the assignment of \<open>source\<close>), for the identifier that \<open>self.id()\<close> returned;
  \<open>pre_put_hook\<close> is the whole method, which goes on with the checks and the key.
\<close>

definition derive_fields :: "env \<Rightarrow> Bug \<Rightarrow> string \<Rightarrow> Bug" where
  "derive_fields en b0 ident =
     (let si0 = set (tokenize ident);
          (b1, si1) =
            (if affected_packages b0 \<noteq> [] then
               (let b = b0\<lparr>
                      project := [name (package pkg). pkg \<leftarrow> affected_packages b0,
                                  name (package pkg) \<noteq> []],
                      bug_ecosystem := [ecosystem (package pkg). pkg \<leftarrow> affected_packages b0,
                                        ecosystem (package pkg) \<noteq> []],
                      bug_purl := [purl (package pkg). pkg \<leftarrow> affected_packages b0,
                                   purl (package pkg) \<noteq> []]\<rparr>;
                    si = fold (\<lambda>p s. s \<union> set (tokenize p)) (project b) si0
                in (b, fold (\<lambda>e s. s \<union> set (tokenize e)) (bug_ecosystem b) si))
             else (b0, si0));
          b2 = b1\<lparr>search_indices := sorted_list_of_set si1\<rparr>;
          b3 = b2\<lparr>affected_fuzzy := [], semver_fixed_indexes := [],
                  has_affected := False, is_fixed := False\<rparr>;
          b4 = fold (derive_package en) (affected_packages b3) b3;
          b5 = (if last_modified b4 = None then b4\<lparr>last_modified := Some (utcnow en)\<rparr>
                else b4)
      in if truthy (source_id b5)
         then b5\<lparr>source := Some (fst (parse_source_id en
                     (case source_id b5 of None \<Rightarrow> [] | Some s \<Rightarrow> s)))\<rparr>
         else b5)"

definition pre_put_hook :: "env \<Rightarrow> Bug \<Rightarrow> error + Bug" where
  "pre_put_hook en b0 =
     (case bug_id b0 of
        Inl err \<Rightarrow> Inl err
      | Inr ident \<Rightarrow>
          (let b6 = derive_fields en b0 ident
           in if \<not> truthy (source b6) then Inl (ValueError ''Source not specified for Bug.'')
              else if \<not> truthy (db_id b6) then Inl (ValueError ''DB ID not specified for Bug.'')
              else if key b6 = None then
                (let src = (case source b6 of None \<Rightarrow> [] | Some s \<Rightarrow> s);
                     dbid = (case db_id b6 of None \<Rightarrow> [] | Some d \<Rightarrow> d)
                 in case get_source_repository en src of
                      None \<Rightarrow> Inl (ValueError (''Invalid source '' @ src))
                    | Some source_repo \<Rightarrow>
                        Inr (b6\<lparr>key := Some (if db_prefix source_repo \<noteq> [] \<and>
                                                  starts_with dbid (db_prefix source_repo)
                                               then dbid else src @ '':'' @ dbid)\<rparr>))
              else Inr b6))"

section \<open>Notions used to state the properties\<close>

text \<open>The sentinel events of a list, and the last of them.\<close>

definition is_zero :: "AffectedEvent \<Rightarrow> bool" where
  "is_zero e = (ev_value e = ''0'')"

definition last_zero :: "AffectedEvent list \<Rightarrow> AffectedEvent option" where
  "last_zero evs = (case filter is_zero evs of [] \<Rightarrow> None | z # zs \<Rightarrow> Some (last (z # zs)))"

text \<open>
  The merge of legacy pairs, stated from its description: pairs are grouped by
  \<open>(type, repository)\<close>; a pair stands for an introduced event (the sentinel \<open>0\<close> when
  its introduced bound is empty) and, when it has a fixed bound, a fixed event; a group
  holds the events of its pairs in order, each event once; there is one range per group,
  in the order in which the groups were first seen, with a repository only when the type
  is \<open>GIT\<close> and the repository is not empty. \<open>first_seen\<close> keeps the first occurrence of
  each element.
\<close>

definition range_key :: "pb_AffectedRange \<Rightarrow> string \<times> string" where
  "range_key p = (Type_Name (pb_type p), repo p)"

definition pair_events :: "pb_AffectedRange \<Rightarrow> AffectedEvent list" where
  "pair_events p =
     \<lparr>ev_type = ''introduced'', ev_value = (if introduced p = [] then ''0'' else introduced p)\<rparr> #
     (if fixed p \<noteq> [] then [\<lparr>ev_type = ''fixed'', ev_value = fixed p\<rparr>] else [])"

definition first_seen :: "'a list \<Rightarrow> 'a list" where
  "first_seen xs = rev (remdups (rev xs))"

definition group_events :: "pb_AffectedRange list \<Rightarrow> string \<times> string \<Rightarrow> AffectedEvent list" where
  "group_events ps k = first_seen (concat (map pair_events [p \<leftarrow> ps. range_key p = k]))"

definition merged_ranges :: "pb_AffectedRange list \<Rightarrow> AffectedRange2 list" where
  "merged_ranges ps =
     map (\<lambda>k. \<lparr>r_type = fst k,
               repo_url = (if fst k = ''GIT'' \<and> snd k \<noteq> [] then Some (snd k) else None),
               events = group_events ps k\<rparr>)
         (first_seen (map range_key ps))"

text \<open>The dictionary of the groups, and the range built from one of its entries.\<close>

definition group_table :: "pb_AffectedRange list \<Rightarrow> events_by_type" where
  "group_table ps = map (\<lambda>k. (k, group_events ps k)) (first_seen (map range_key ps))"

definition range_of_group :: "(string \<times> string) \<times> AffectedEvent list \<Rightarrow> AffectedRange2" where
  "range_of_group g =
     \<lparr>r_type = fst (fst g),
      repo_url = (if fst (fst g) = ''GIT'' \<and> snd (fst g) \<noteq> [] then Some (snd (fst g)) else None),
      events = snd g\<rparr>"

text \<open>A record and a payload on which the statements below are instantiated.\<close>

definition example_bug :: Bug where
  "example_bug =
     \<lparr>db_id = Some ''GHSA-1234'', key = None, aliases = [], related = [], timestamp = None,
      last_modified = None, withdrawn = None, source_id = None, summary = None,
      details = None, severity = None, project = [], bug_ecosystem = [], bug_purl = [],
      search_indices = [], affected_fuzzy = [], semver_fixed_indexes = [],
      has_affected = False, is_fixed = False, affected_packages = [],
      source = Some ''ghsa''\<rparr>"

definition example_vulnerability :: "pb_AffectedRange list \<Rightarrow> Vulnerability" where
  "example_vulnerability rs =
     \<lparr>v_summary = ''s'', v_details = ''d'', modified = None, published = None,
      v_withdrawn = None, v_package = \<lparr>ecosystem = ''npm'', name = ''left-pad'', purl = []\<rparr>,
      v_aliases = [], v_related = [],
      affects = \<lparr>affects_versions = [''1.0''], affects_ranges = rs\<rparr>\<rparr>"

text \<open>
  The value of the last fixed event of a list of events, if there is one; the ranges of
  a record, package after package.
\<close>

definition last_fixed :: "AffectedEvent list \<Rightarrow> string option" where
  "last_fixed evs =
     (if [e \<leftarrow> evs. ev_type e = ''fixed''] = [] then None
      else Some (ev_value (last [e \<leftarrow> evs. ev_type e = ''fixed''])))"

definition has_fixed :: "AffectedRange2 \<Rightarrow> bool" where
  "has_fixed r = (\<exists>e \<in> set (events r). ev_type e = ''fixed'')"

definition all_ranges :: "Bug \<Rightarrow> AffectedRange2 list" where
  "all_ranges b = concat (map ranges (affected_packages b))"

text \<open>
  The entry of \<open>semver_fixed_indexes\<close> that a range contributes: the sentinel version
  when the range has no fixed event or when the value of its last fixed event is empty.
\<close>

definition range_fixed_index :: "env \<Rightarrow> AffectedRange2 \<Rightarrow> string" where
  "range_fixed_index en r =
     semver_normalize en
       (case last_fixed (events r) of
          None \<Rightarrow> NOT_FIXED_SEMVER
        | Some v \<Rightarrow> if v = [] then NOT_FIXED_SEMVER else v)"

text \<open>A record without the four fields that the loops over the packages write.\<close>

definition without_derived :: "Bug \<Rightarrow> Bug" where
  "without_derived b = b\<lparr>affected_fuzzy := [], semver_fixed_indexes := [],
              has_affected := False, is_fixed := False\<rparr>"

text \<open>The set of search tokens of an identifier and a list of affected packages.\<close>

definition index_set :: "string \<Rightarrow> AffectedPackage list \<Rightarrow> string set" where
  "index_set ident aps =
     (if aps \<noteq> [] then
        fold (\<lambda>e s. s \<union> set (tokenize e))
          [ecosystem (package pkg). pkg \<leftarrow> aps, ecosystem (package pkg) \<noteq> []]
          (fold (\<lambda>p s. s \<union> set (tokenize p))
             [name (package pkg). pkg \<leftarrow> aps, name (package pkg) \<noteq> []]
             (set (tokenize ident)))
      else set (tokenize ident))"

text \<open>
  \<open>semver_fixed_indexes\<close> as the description has it: the value of the last fixed event
  whenever there is a fixed event.
\<close>

definition claimed_semver_fixed_indexes :: "env \<Rightarrow> Bug \<Rightarrow> string list" where
  "claimed_semver_fixed_indexes en b =
     map (\<lambda>r. semver_normalize en
                 (case last_fixed (events r) of None \<Rightarrow> NOT_FIXED_SEMVER | Some v \<Rightarrow> v))
       [r \<leftarrow> all_ranges b. r_type r = ''SEMVER'']"

text \<open>Collaborators and records on which the statements are instantiated.\<close>

definition example_env :: env where
  "example_env =
     \<lparr>normalize_tags = id, semver_normalize = id, utcnow = 7,
      parse_source_id = (\<lambda>s. (takeWhile (\<lambda>c. c \<noteq> CHR '':'') s, [])),
      get_source_repository = (\<lambda>s. Some \<lparr>db_prefix = ''GHSA-''\<rparr>)\<rparr>"

definition empty_fixed_bug :: Bug where
  "empty_fixed_bug =
     example_bug\<lparr>affected_packages :=
       [\<lparr>package = \<lparr>ecosystem = ''npm'', name = ''left-pad'', purl = []\<rparr>,
         ranges = [\<lparr>r_type = ''SEMVER'', repo_url = None,
                    events = [\<lparr>ev_type = ''introduced'', ev_value = ''1.0.0''\<rparr>,
                              \<lparr>ev_type = ''fixed'', ev_value = []\<rparr>]\<rparr>],
         versions = []\<rparr>]\<rparr>"


text \<open>
  Ingestion followed by legacy export: the \<open>affects\<close> block that comes back for a
  payload.
\<close>

definition round_trip ::
  "(string \<Rightarrow> 'k::linorder) \<Rightarrow> (string \<Rightarrow> (string \<Rightarrow> 'k) option) \<Rightarrow> Bug \<Rightarrow> Vulnerability \<Rightarrow>
   error + pb_Affects" where
  "round_trip semver_key ecosystems_get b v =
     (case update_from_vulnerability b v of
        Inl err \<Rightarrow> Inl err
      | Inr b' \<Rightarrow>
          (case get_pre_0_8_affects semver_key ecosystems_get b' of
             Inl err \<Rightarrow> Inl err
           | Inr (a, b'') \<Rightarrow> Inr a))"

text \<open>
  The legacy inputs for which the round trip is shown. A pair is \<open>well_paired\<close> when its
  introduced bound is not the literal \<open>0\<close> and it has at least one bound. \<open>git_input\<close>:
  pairs of type \<open>GIT\<close> of one repository, no two of which share an event.
  \<open>semver_chain\<close>: pairs of type \<open>SEMVER\<close> without repository, listed in ascending
  order, whose bounds have strictly increasing sort keys, so that they do not overlap;
  only the first may lack an introduced bound and only the last a fixed bound.
\<close>

definition well_paired :: "pb_AffectedRange \<Rightarrow> bool" where
  "well_paired p = (introduced p \<noteq> ''0'' \<and> (introduced p = [] \<longrightarrow> fixed p \<noteq> []))"

definition git_input :: "string \<Rightarrow> pb_AffectedRange list \<Rightarrow> bool" where
  "git_input rp ps =
     ((\<forall>p \<in> set ps. pb_type p = GIT \<and> repo p = rp \<and> well_paired p) \<and>
      distinct (concat (map pair_events ps)))"

definition bounds :: "pb_AffectedRange \<Rightarrow> string list" where
  "bounds p =
     (if introduced p = [] then [] else [introduced p]) @
     (if fixed p = [] then [] else [fixed p])"

definition semver_chain :: "(string \<Rightarrow> 'k::linorder) \<Rightarrow> pb_AffectedRange list \<Rightarrow> bool" where
  "semver_chain sk ss =
     ((\<forall>p \<in> set ss. pb_type p = SEMVER \<and> repo p = [] \<and> well_paired p \<and> fixed p \<noteq> ''0'') \<and>
      (\<forall>p \<in> set (butlast ss). fixed p \<noteq> []) \<and>
      (\<forall>p \<in> set (tl ss). introduced p \<noteq> []) \<and>
      sorted_wrt (<) (map sk (concat (map bounds ss))))"

text \<open>
  A list of pairs of several groups: \<open>group_of\<close> is the group of a key, and
  \<open>group_restored\<close> says when the list \<open>out\<close> is what the export gives for a group
  \<open>g\<close>: a \<open>GIT\<close> group that is a \<open>git_input\<close> comes back as it is, and the \<open>SEMVER\<close>
  group without repository comes back as its ascending arrangement.
\<close>

definition group_of :: "pb_AffectedRange list \<Rightarrow> string \<times> string \<Rightarrow> pb_AffectedRange list" where
  "group_of ps k = [p \<leftarrow> ps. range_key p = k]"

definition group_restored ::
  "(string \<Rightarrow> 'k::linorder) \<Rightarrow> string \<times> string \<Rightarrow> pb_AffectedRange list \<Rightarrow>
   pb_AffectedRange list \<Rightarrow> bool" where
  "group_restored sk k g out =
     (if fst k = ''GIT'' then git_input (snd k) g \<and> out = g
      else k = (''SEMVER'', []) \<and> semver_chain sk out \<and> mset g = mset out)"

text \<open>
  The state of the export loop after the events of the pairs \<open>ss\<close>: the cursor is open
  on the last pair when that pair has no fixed bound.
\<close>

definition replay_state ::
  "pb_AffectedRange \<Rightarrow> pb_AffectedRange list \<Rightarrow> pb_AffectedRange list \<Rightarrow>
   pb_AffectedRange \<times> pb_AffectedRange list" where
  "replay_state fresh out ss =
     (if ss = [] \<or> fixed (last ss) \<noteq> [] then (fresh, out @ ss)
      else (last ss, out @ butlast ss))"

text \<open>
  What one range adds to \<open>affects.ranges\<close>, read from the state in which the loop over
  its sorted events ends: the pairs emitted by the loop, then the cursor if its introduced
  bound is not empty (lines 487 to 488).
\<close>

definition emitted :: "pb_AffectedRange \<times> pb_AffectedRange list \<Rightarrow> pb_AffectedRange list" where
  "emitted st = snd st @ (if introduced (fst st) \<noteq> [] then [fst st] else [])"

section \<open>Sorting the events of a range\<close>

lemma filter_not_zero_remove1:
  "is_zero x \<Longrightarrow> filter (\<lambda>e. \<not> is_zero e) (remove1 x evs) = filter (\<lambda>e. \<not> is_zero e) evs"
  by (induction evs) auto

text \<open>
  The removal loop never fails: each sentinel event of the snapshot is still in the list
  when its turn comes. It leaves the other events in their order.
\<close>

lemma remove_zeros_gen:
  "mset (filter is_zero xs) \<subseteq># mset evs \<Longrightarrow>
   \<exists>evs'. remove_zeros xs (z, evs) =
            Inr (case last_zero xs of None \<Rightarrow> z | Some l \<Rightarrow> Some l, evs') \<and>
          mset evs' = mset evs - mset (filter is_zero xs) \<and>
          filter (\<lambda>e. \<not> is_zero e) evs' = filter (\<lambda>e. \<not> is_zero e) evs"
proof (induction xs arbitrary: z evs)
  case Nil
  then show ?case by (simp add: last_zero_def)
next
  case (Cons x xs)
  show ?case
  proof (cases "is_zero x")
    case False
    with Cons.prems have "mset (filter is_zero xs) \<subseteq># mset evs" by simp
    from Cons.IH[OF this, of z] False show ?thesis
      by (auto simp: is_zero_def last_zero_def)
  next
    case True
    with Cons.prems have sub: "add_mset x (mset (filter is_zero xs)) \<subseteq># mset evs" by simp
    then have xin: "x \<in> set evs"
      by (metis insert_subset_eq_iff set_mset_mset)
    from sub have "mset (filter is_zero xs) \<subseteq># mset (remove1 x evs)"
      by (simp add: insert_subset_eq_iff)
    from Cons.IH[OF this, of "Some x"] obtain evs' where
      r: "remove_zeros xs (Some x, remove1 x evs) =
            Inr (case last_zero xs of None \<Rightarrow> Some x | Some l \<Rightarrow> Some l, evs')"
      and m: "mset evs' = mset (remove1 x evs) - mset (filter is_zero xs)"
      and f: "filter (\<lambda>e. \<not> is_zero e) evs' = filter (\<lambda>e. \<not> is_zero e) (remove1 x evs)"
      by blast
    have lz: "(case last_zero (x # xs) of None \<Rightarrow> z | Some l \<Rightarrow> Some l) =
              (case last_zero xs of None \<Rightarrow> Some x | Some l \<Rightarrow> Some l)"
      using True by (simp add: last_zero_def split: list.splits)
    have "remove_zeros (x # xs) (z, evs) = remove_zeros xs (Some x, remove1 x evs)"
      using True xin by (simp add: is_zero_def list_remove_def)
    moreover have "mset evs' = mset evs - mset (filter is_zero (x # xs))"
      using m True by simp
    moreover have "filter (\<lambda>e. \<not> is_zero e) evs' = filter (\<lambda>e. \<not> is_zero e) evs"
      using f True by (simp add: filter_not_zero_remove1)
    ultimately show ?thesis using r lz by simp
  qed
qed

lemma remove_zeros_all:
  "remove_zeros evs (None, evs) = Inr (last_zero evs, filter (\<lambda>e. \<not> is_zero e) evs)"
proof -
  from remove_zeros_gen[of evs evs None] obtain evs' where
    r: "remove_zeros evs (None, evs) =
          Inr (case last_zero evs of None \<Rightarrow> None | Some l \<Rightarrow> Some l, evs')"
    and m: "mset evs' = mset evs - mset (filter is_zero evs)"
    and f: "filter (\<lambda>e. \<not> is_zero e) evs' = filter (\<lambda>e. \<not> is_zero e) evs"
    by auto
  have "mset evs' = mset (filter (\<lambda>e. \<not> is_zero e) evs)"
    using m by (metis add_diff_cancel_left' mset_filter multiset_partition)
  then have "set evs' = set (filter (\<lambda>e. \<not> is_zero e) evs)"
    by (rule mset_eq_setD)
  then have "filter (\<lambda>e. \<not> is_zero e) evs' = evs'"
    by (auto simp: filter_id_conv)
  with f have "evs' = filter (\<lambda>e. \<not> is_zero e) evs" by simp
  moreover have "(case last_zero evs of None \<Rightarrow> None | Some l \<Rightarrow> Some l) = last_zero evs"
    by (simp split: option.splits)
  ultimately show ?thesis using r by simp
qed

lemma sorted_events_not_git:
  assumes "range_type \<noteq> ''GIT''"
    and "(if range_type = ''SEMVER'' then Some sk else eg eco) = Some hk"
  shows "sorted_events sk eg eco range_type evs =
           Inr ((case last_zero evs of None \<Rightarrow> [] | Some z \<Rightarrow> [z]) @
                  sort_key (\<lambda>e. hk (ev_value e)) (filter (\<lambda>e. \<not> is_zero e) evs),
                filter (\<lambda>e. \<not> is_zero e) evs)"
  using assms
  by (simp add: sorted_events_def remove_zeros_all split: option.splits)

text \<open>
  C2. \<open>sorted_events\<close> returns the list it was given when the range type is \<open>GIT\<close>.
  For any other range type for which a comparator is found, it removes every event whose
  value is the sentinel \<open>0\<close>, sorts the remaining events ascending by the sort key of the
  comparator, and puts the sentinel event (the last one of the input) at position 0 if
  there was one. For \<open>SEMVER\<close> and a sort key that puts \<open>1.5.0\<close> before \<open>2.0.0\<close>, the
  events fixed \<open>2.0.0\<close>, introduced \<open>0\<close>, introduced \<open>1.5.0\<close> come back as introduced
  \<open>0\<close>, introduced \<open>1.5.0\<close>, fixed \<open>2.0.0\<close>.
\<close>

theorem sorted_events_spec:
  fixes sk :: "string \<Rightarrow> 'k::linorder"
  shows
  "sorted_events sk eg eco ''GIT'' evs = Inr (evs, evs) \<and>
   (range_type \<noteq> ''GIT'' \<longrightarrow>
    (if range_type = ''SEMVER'' then Some sk else eg eco) = Some hk \<longrightarrow>
      sorted_events sk eg eco range_type evs =
        Inr ((case last_zero evs of None \<Rightarrow> [] | Some z \<Rightarrow> [z]) @
               sort_key (\<lambda>e. hk (ev_value e)) [e \<leftarrow> evs. ev_value e \<noteq> ''0''],
             [e \<leftarrow> evs. ev_value e \<noteq> ''0'']) \<and>
      sorted (map (\<lambda>e. hk (ev_value e))
                (sort_key (\<lambda>e. hk (ev_value e)) [e \<leftarrow> evs. ev_value e \<noteq> ''0'']))) \<and>
   (sk ''1.5.0'' < sk ''2.0.0'' \<longrightarrow>
      sorted_events sk eg eco ''SEMVER''
        [\<lparr>ev_type = ''fixed'', ev_value = ''2.0.0''\<rparr>,
         \<lparr>ev_type = ''introduced'', ev_value = ''0''\<rparr>,
         \<lparr>ev_type = ''introduced'', ev_value = ''1.5.0''\<rparr>] =
      Inr ([\<lparr>ev_type = ''introduced'', ev_value = ''0''\<rparr>,
            \<lparr>ev_type = ''introduced'', ev_value = ''1.5.0''\<rparr>,
            \<lparr>ev_type = ''fixed'', ev_value = ''2.0.0''\<rparr>],
           [\<lparr>ev_type = ''fixed'', ev_value = ''2.0.0''\<rparr>,
            \<lparr>ev_type = ''introduced'', ev_value = ''1.5.0''\<rparr>]))"
proof (intro conjI impI)
  show "sorted_events sk eg eco ''GIT'' evs = Inr (evs, evs)"
    by (simp add: sorted_events_def)
next
  assume "range_type \<noteq> ''GIT''"
    and "(if range_type = ''SEMVER'' then Some sk else eg eco) = Some hk"
  then have "sorted_events sk eg eco range_type evs =
           Inr ((case last_zero evs of None \<Rightarrow> [] | Some z \<Rightarrow> [z]) @
                  sort_key (\<lambda>e. hk (ev_value e)) (filter (\<lambda>e. \<not> is_zero e) evs),
                filter (\<lambda>e. \<not> is_zero e) evs)"
    by (rule sorted_events_not_git[where range_type = range_type and sk = sk and eg = eg
          and eco = eco and hk = hk and evs = evs])
  then show "sorted_events sk eg eco range_type evs =
        Inr ((case last_zero evs of None \<Rightarrow> [] | Some z \<Rightarrow> [z]) @
               sort_key (\<lambda>e. hk (ev_value e)) [e \<leftarrow> evs. ev_value e \<noteq> ''0''],
             [e \<leftarrow> evs. ev_value e \<noteq> ''0''])"
    by (simp add: is_zero_def)
next
  show "sorted (map (\<lambda>e. hk (ev_value e))
                (sort_key (\<lambda>e. hk (ev_value e)) [e \<leftarrow> evs. ev_value e \<noteq> ''0'']))"
    by simp
next
  assume lt: "sk ''1.5.0'' < sk ''2.0.0''"
  have "''SEMVER'' \<noteq> ''GIT''" by simp
  moreover have "(if ''SEMVER'' = ''SEMVER'' then Some sk else eg eco) = Some sk" by simp
  ultimately show "sorted_events sk eg eco ''SEMVER''
        [\<lparr>ev_type = ''fixed'', ev_value = ''2.0.0''\<rparr>,
         \<lparr>ev_type = ''introduced'', ev_value = ''0''\<rparr>,
         \<lparr>ev_type = ''introduced'', ev_value = ''1.5.0''\<rparr>] =
      Inr ([\<lparr>ev_type = ''introduced'', ev_value = ''0''\<rparr>,
            \<lparr>ev_type = ''introduced'', ev_value = ''1.5.0''\<rparr>,
            \<lparr>ev_type = ''fixed'', ev_value = ''2.0.0''\<rparr>],
           [\<lparr>ev_type = ''fixed'', ev_value = ''2.0.0''\<rparr>,
            \<lparr>ev_type = ''introduced'', ev_value = ''1.5.0''\<rparr>])"
    using lt by (simp add: sorted_events_not_git is_zero_def last_zero_def)
qed

theorem sorted_events_spec_witness:
  "''SEMVER'' \<noteq> ''GIT'' \<and> ''1.5.0'' < ''2.0.0'' \<and>
   sorted_events (\<lambda>s. s) (\<lambda>n. None) ''npm'' ''SEMVER''
     [\<lparr>ev_type = ''fixed'', ev_value = ''2.0.0''\<rparr>,
      \<lparr>ev_type = ''introduced'', ev_value = ''0''\<rparr>,
      \<lparr>ev_type = ''introduced'', ev_value = ''1.5.0''\<rparr>] =
   Inr ([\<lparr>ev_type = ''introduced'', ev_value = ''0''\<rparr>,
         \<lparr>ev_type = ''introduced'', ev_value = ''1.5.0''\<rparr>,
         \<lparr>ev_type = ''fixed'', ev_value = ''2.0.0''\<rparr>],
        [\<lparr>ev_type = ''fixed'', ev_value = ''2.0.0''\<rparr>,
         \<lparr>ev_type = ''introduced'', ev_value = ''1.5.0''\<rparr>])"
proof -
  have lt: "''1.5.0'' < ''2.0.0''" by simp
  from sorted_events_spec[of "\<lambda>s::string. s" "\<lambda>n. None" "''npm''" "[]" "''SEMVER''" "\<lambda>s. s"]
  have "(\<lambda>s::string. s) ''1.5.0'' < (\<lambda>s::string. s) ''2.0.0'' \<longrightarrow>
      sorted_events (\<lambda>s::string. s) (\<lambda>n. None) ''npm'' ''SEMVER''
        [\<lparr>ev_type = ''fixed'', ev_value = ''2.0.0''\<rparr>,
         \<lparr>ev_type = ''introduced'', ev_value = ''0''\<rparr>,
         \<lparr>ev_type = ''introduced'', ev_value = ''1.5.0''\<rparr>] =
      Inr ([\<lparr>ev_type = ''introduced'', ev_value = ''0''\<rparr>,
            \<lparr>ev_type = ''introduced'', ev_value = ''1.5.0''\<rparr>,
            \<lparr>ev_type = ''fixed'', ev_value = ''2.0.0''\<rparr>],
           [\<lparr>ev_type = ''fixed'', ev_value = ''2.0.0''\<rparr>,
            \<lparr>ev_type = ''introduced'', ev_value = ''1.5.0''\<rparr>])"
    by blast
  with lt show ?thesis by simp
qed

text \<open>
  C8. For a range type other than \<open>GIT\<close> the returned list holds at most one event of
  value \<open>0\<close>. The call removes all sentinel events from the list it is given; when there
  are any, the returned list is the last of them followed by the sorted other events.
\<close>

theorem sorted_events_one_sentinel:
  fixes sk :: "string \<Rightarrow> 'k::linorder"
  assumes "range_type \<noteq> ''GIT''"
    and "(if range_type = ''SEMVER'' then Some sk else eg eco) = Some hk"
  shows "\<exists>res left.
           sorted_events sk eg eco range_type evs = Inr (res, left) \<and>
           length [e \<leftarrow> res. ev_value e = ''0''] \<le> 1 \<and>
           [e \<leftarrow> left. ev_value e = ''0''] = [] \<and>
           ([e \<leftarrow> evs. ev_value e = ''0''] \<noteq> [] \<longrightarrow>
              res = last [e \<leftarrow> evs. ev_value e = ''0''] #
                    sort_key (\<lambda>e. hk (ev_value e)) [e \<leftarrow> evs. ev_value e \<noteq> ''0''])"
proof -
  let ?nz = "[e \<leftarrow> evs. ev_value e \<noteq> ''0'']"
  let ?srt = "sort_key (\<lambda>e. hk (ev_value e)) ?nz"
  let ?res = "(case last_zero evs of None \<Rightarrow> [] | Some z \<Rightarrow> [z]) @ ?srt"
  have r: "sorted_events sk eg eco range_type evs = Inr (?res, ?nz)"
    using sorted_events_not_git[where range_type = range_type and sk = sk and eg = eg
          and eco = eco and hk = hk and evs = evs] assms
    by (simp add: is_zero_def)
  have s0: "[e \<leftarrow> ?srt. ev_value e = ''0''] = []"
    by (simp add: filter_empty_conv)
  have "length [e \<leftarrow> ?res. ev_value e = ''0''] \<le> 1"
    using s0 by (simp split: option.splits)
  moreover have "[e \<leftarrow> ?nz. ev_value e = ''0''] = []"
    by (simp add: filter_empty_conv)
  moreover have "[e \<leftarrow> evs. ev_value e = ''0''] \<noteq> [] \<longrightarrow>
      ?res = last [e \<leftarrow> evs. ev_value e = ''0''] # ?srt"
  proof
    assume ne: "[e \<leftarrow> evs. ev_value e = ''0''] \<noteq> []"
    have iz: "filter is_zero evs = [e \<leftarrow> evs. ev_value e = ''0'']"
      by (rule filter_cong) (simp_all add: is_zero_def)
    from ne obtain z zs where zz: "[e \<leftarrow> evs. ev_value e = ''0''] = z # zs"
      by (cases "[e \<leftarrow> evs. ev_value e = ''0'']") auto
    then have "last_zero evs = Some (last (z # zs))"
      by (simp add: last_zero_def iz)
    with zz show "?res = last [e \<leftarrow> evs. ev_value e = ''0''] # ?srt"
      by simp
  qed
  ultimately show ?thesis using r by blast
qed

theorem sorted_events_one_sentinel_witness:
  "\<exists>res left.
     sorted_events (\<lambda>s. s) (\<lambda>n. Some (\<lambda>s. s)) ''npm'' ''ECOSYSTEM''
       [\<lparr>ev_type = ''fixed'', ev_value = ''0''\<rparr>,
        \<lparr>ev_type = ''introduced'', ev_value = ''2''\<rparr>,
        \<lparr>ev_type = ''introduced'', ev_value = ''0''\<rparr>,
        \<lparr>ev_type = ''fixed'', ev_value = ''1''\<rparr>] = Inr (res, left) \<and>
     length [e \<leftarrow> res. ev_value e = ''0''] \<le> 1 \<and>
     res = [\<lparr>ev_type = ''introduced'', ev_value = ''0''\<rparr>,
            \<lparr>ev_type = ''fixed'', ev_value = ''1''\<rparr>,
            \<lparr>ev_type = ''introduced'', ev_value = ''2''\<rparr>]"
proof -
  have a: "''ECOSYSTEM'' \<noteq> ''GIT''" by simp
  have b: "(if ''ECOSYSTEM'' = ''SEMVER'' then Some (\<lambda>s::string. s)
            else (\<lambda>n::string. Some (\<lambda>s::string. s)) ''npm'') = Some (\<lambda>s. s)" by simp
  from sorted_events_one_sentinel[where range_type = "''ECOSYSTEM''"
      and sk = "\<lambda>s::string. s" and eg = "\<lambda>n::string. Some (\<lambda>s::string. s)"
      and eco = "''npm''" and hk = "\<lambda>s::string. s"
      and evs = "[\<lparr>ev_type = ''fixed'', ev_value = ''0''\<rparr>,
           \<lparr>ev_type = ''introduced'', ev_value = ''2''\<rparr>,
           \<lparr>ev_type = ''introduced'', ev_value = ''0''\<rparr>,
           \<lparr>ev_type = ''fixed'', ev_value = ''1''\<rparr>]", OF a b]
  show ?thesis by simp blast
qed

section \<open>From events to legacy pairs\<close>

lemma new_range_fields:
  "new_range r = Inr fresh \<Longrightarrow> introduced fresh = [] \<and> fixed fresh = []"
  by (auto simp: new_range_def split: sum.splits)

lemma pair_event_introduced:
  "ev_type e = ''introduced'' \<Longrightarrow>
   pair_event rt fresh e (cur, out) =
     (if introduced cur \<noteq> [] \<and> rt = ''GIT''
      then (if introduced fresh = []
            then fresh\<lparr>introduced := (if ev_value e = ''0'' then [] else ev_value e)\<rparr>
            else fresh, out @ [cur])
      else (if introduced cur = []
            then cur\<lparr>introduced := (if ev_value e = ''0'' then [] else ev_value e)\<rparr>
            else cur, out))"
  by (simp add: pair_event_def)

lemma pair_event_fixed:
  "ev_type e = ''fixed'' \<Longrightarrow>
   pair_event rt fresh e (cur, out) = (fresh, out @ [cur\<lparr>fixed := ev_value e\<rparr>])"
  by (simp add: pair_event_def)

lemma pair_event_other:
  "ev_type e \<noteq> ''introduced'' \<Longrightarrow> ev_type e \<noteq> ''fixed'' \<Longrightarrow> pair_event rt fresh e st = st"
  by (cases st) (simp add: pair_event_def)

lemma pair_event_keeps_unfixed:
  assumes "fixed fresh = []" and "fixed (fst st) = []"
  shows "fixed (fst (pair_event rt fresh e st)) = []"
  using assms by (cases st) (auto simp: pair_event_def)

lemma fold_pair_event_unfixed:
  assumes "fixed fresh = []"
  shows "fixed (fst st) = [] \<Longrightarrow> fixed (fst (fold (pair_event rt fresh) evs st)) = []"
proof (induction evs arbitrary: st)
  case Nil
  then show ?case by simp
next
  case (Cons e evs)
  then show ?case using assms by (simp add: pair_event_keeps_unfixed)
qed

lemma fold_pair_event_filter:
  "fold (pair_event rt fresh) evs st =
   fold (pair_event rt fresh) [e \<leftarrow> evs. ev_type e = ''introduced'' \<or> ev_type e = ''fixed''] st"
  by (induction evs arbitrary: st) (auto simp: pair_event_other)

lemma range_pairs_unfold:
  fixes sk :: "string \<Rightarrow> 'k::linorder"
  assumes "new_range r = Inr fresh"
    and "sorted_events sk eg eco (r_type r) (events r) = Inr (srt, left)"
  shows "range_pairs sk eg eco r out =
           Inr (r\<lparr>events := left\<rparr>,
                snd (fold (pair_event (r_type r) fresh) srt (fresh, out)) @
                (if introduced (fst (fold (pair_event (r_type r) fresh) srt (fresh, out))) \<noteq> []
                 then [fst (fold (pair_event (r_type r) fresh) srt (fresh, out))] else []))"
  using assms by (simp add: range_pairs_def split_beta)

lemma range_pairs_state:
  fixes sk :: "string \<Rightarrow> 'k::linorder"
  assumes "new_range r = Inr fresh"
    and "sorted_events sk eg eco (r_type r) (events r) = Inr (srt, left)"
    and "fold (pair_event (r_type r) fresh) srt (fresh, out) = st"
    and "snd st @ (if introduced (fst st) \<noteq> [] then [fst st] else []) = res"
  shows "range_pairs sk eg eco r out = Inr (r\<lparr>events := left\<rparr>, res)"
  unfolding range_pairs_unfold[OF assms(1,2)] assms(3) assms(4) ..

lemma pair_event_out:
  "pair_event rt fresh e (cur, out) =
     (fst (pair_event rt fresh e (cur, [])), out @ snd (pair_event rt fresh e (cur, [])))"
  by (simp add: pair_event_def)

lemma fold_pair_event_out:
  "fold (pair_event rt fresh) evs (cur, out) =
     (fst (fold (pair_event rt fresh) evs (cur, [])),
      out @ snd (fold (pair_event rt fresh) evs (cur, [])))"
proof (induction evs arbitrary: cur out)
  case Nil
  then show ?case by simp
next
  case (Cons e evs)
  obtain c x where s: "pair_event rt fresh e (cur, []) = (c, x)" by (cases "pair_event rt fresh e (cur, [])")
  have 1: "pair_event rt fresh e (cur, out) = (c, out @ x)"
    using pair_event_out[of rt fresh e cur out] s by simp
  show ?case
    using Cons.IH[of c "out @ x"] Cons.IH[of c x] by (simp add: 1 s)
qed

lemma range_pairs_emitted:
  fixes sk :: "string \<Rightarrow> 'k::linorder"
  assumes "new_range r = Inr fresh"
    and "sorted_events sk eg eco (r_type r) (events r) = Inr (srt, left)"
  shows "range_pairs sk eg eco r out =
           Inr (r\<lparr>events := left\<rparr>,
                out @ emitted (fold (pair_event (r_type r) fresh) srt (fresh, [])))"
proof -
  let ?st = "fold (pair_event (r_type r) fresh) srt (fresh, [])"
  have f: "fold (pair_event (r_type r) fresh) srt (fresh, out) = (fst ?st, out @ snd ?st)"
    by (rule fold_pair_event_out)
  have "snd (fst ?st, out @ snd ?st) @
          (if introduced (fst (fst ?st, out @ snd ?st)) \<noteq> [] then [fst (fst ?st, out @ snd ?st)]
           else []) = out @ emitted ?st"
    by (simp add: emitted_def)
  with range_pairs_state[OF assms f] show ?thesis by blast
qed

lemma range_pairs_out:
  fixes sk :: "string \<Rightarrow> 'k::linorder"
  shows "range_pairs sk eg eco r out =
           (case range_pairs sk eg eco r [] of
              Inl err \<Rightarrow> Inl err
            | Inr (r', ps) \<Rightarrow> Inr (r', out @ ps))"
proof (cases "new_range r")
  case (Inl err)
  then show ?thesis by (simp add: range_pairs_def)
next
  case nr: (Inr fresh)
  show ?thesis
  proof (cases "sorted_events sk eg eco (r_type r) (events r)")
    case (Inl err)
    with nr show ?thesis by (simp add: range_pairs_def)
  next
    case (Inr p)
    then obtain srt left where
      se: "sorted_events sk eg eco (r_type r) (events r) = Inr (srt, left)"
      by (cases p) simp
    show ?thesis
      by (simp add: range_pairs_emitted[OF nr se])
  qed
qed

lemma ranges_pairs_out:
  fixes sk :: "string \<Rightarrow> 'k::linorder"
  shows "ranges_pairs sk eg eco rs out =
           (case ranges_pairs sk eg eco rs [] of
              Inl err \<Rightarrow> Inl err
            | Inr (rs', ps) \<Rightarrow> Inr (rs', out @ ps))"
proof (induction rs arbitrary: out)
  case Nil
  then show ?case by simp
next
  case (Cons r rs)
  show ?case
  proof (cases "range_pairs sk eg eco r []")
    case (Inl err)
    then have "range_pairs sk eg eco r out = Inl err"
      by (simp add: range_pairs_out[of sk eg eco r out])
    with Inl show ?thesis by simp
  next
    case (Inr p)
    then obtain r' p1 where r0: "range_pairs sk eg eco r [] = Inr (r', p1)"
      by (cases p) simp
    then have r1: "range_pairs sk eg eco r out = Inr (r', out @ p1)"
      by (simp add: range_pairs_out[of sk eg eco r out])
    show ?thesis
      by (simp add: r0 r1 Cons.IH[of "out @ p1"] Cons.IH[of p1] split: sum.splits)
  qed
qed

lemma ranges_pairs_append:
  fixes sk :: "string \<Rightarrow> 'k::linorder"
  assumes "ranges_pairs sk eg eco xs [] = Inr (xs', P)"
    and "ranges_pairs sk eg eco ys [] = Inr (ys', Q)"
  shows "ranges_pairs sk eg eco (xs @ ys) out = Inr (xs' @ ys', out @ P @ Q)"
  using assms(1)
proof (induction xs arbitrary: xs' P out)
  case Nil
  then show ?case
    using assms(2) by (simp add: ranges_pairs_out[of sk eg eco ys out])
next
  case (Cons r xs)
  from Cons.prems obtain r' p1 where r0: "range_pairs sk eg eco r [] = Inr (r', p1)"
    by (cases "range_pairs sk eg eco r []") auto
  from Cons.prems r0 obtain xs1 p2 where
    t: "ranges_pairs sk eg eco xs p1 = Inr (xs1, p2)" and e: "xs' = r' # xs1" "P = p2"
    by (cases "ranges_pairs sk eg eco xs p1") auto
  from t obtain p3 where t0: "ranges_pairs sk eg eco xs [] = Inr (xs1, p3)" and p2: "p2 = p1 @ p3"
    by (auto simp: ranges_pairs_out[of sk eg eco xs p1] split: sum.splits)
  have r1: "range_pairs sk eg eco r out = Inr (r', out @ p1)"
    using r0 by (simp add: range_pairs_out[of sk eg eco r out])
  from Cons.IH[OF t0, of "out @ p1"] show ?case
    by (simp add: r1 e p2)
qed

lemma get_pre_0_8_affects_range:
  fixes sk :: "string \<Rightarrow> 'k::linorder"
  assumes "affected_packages b = ap # others" and "ranges ap = pre @ r # post"
    and "ranges_pairs sk eg (ecosystem (package ap)) pre [] = Inr (pre', P)"
    and "new_range r = Inr fresh"
    and "sorted_events sk eg (ecosystem (package ap)) (r_type r) (events r) = Inr (srt, left)"
    and "ranges_pairs sk eg (ecosystem (package ap)) post [] = Inr (post', Q)"
  shows "get_pre_0_8_affects sk eg b =
           Inr (\<lparr>affects_versions = versions ap,
                 affects_ranges =
                   P @ emitted (fold (pair_event (r_type r) fresh) srt (fresh, [])) @ Q\<rparr>,
                b\<lparr>affected_packages :=
                    ap\<lparr>ranges := pre' @ r\<lparr>events := left\<rparr> # post'\<rparr> # others\<rparr>)"
proof -
  let ?eco = "ecosystem (package ap)"
  let ?X = "emitted (fold (pair_event (r_type r) fresh) srt (fresh, []))"
  have "range_pairs sk eg ?eco r [] = Inr (r\<lparr>events := left\<rparr>, ?X)"
    using range_pairs_emitted[OF assms(4,5), of "[]"] by simp
  then have "ranges_pairs sk eg ?eco [r] [] = Inr ([r\<lparr>events := left\<rparr>], ?X)"
    by simp
  from ranges_pairs_append[OF this assms(6), of "[]"]
  have "ranges_pairs sk eg ?eco (r # post) [] = Inr (r\<lparr>events := left\<rparr> # post', ?X @ Q)"
    by simp
  from ranges_pairs_append[OF assms(3) this, of "[]"]
  have "ranges_pairs sk eg ?eco (pre @ r # post) [] =
          Inr (pre' @ r\<lparr>events := left\<rparr> # post', P @ ?X @ Q)"
    by simp
  then show ?thesis
    by (simp add: get_pre_0_8_affects_def assms(1,2))
qed

lemma pair_event_shape:
  assumes "(fst st)\<lparr>introduced := []\<rparr> = fresh\<lparr>introduced := []\<rparr>"
  shows "(fst (pair_event rt fresh e st))\<lparr>introduced := []\<rparr> = fresh\<lparr>introduced := []\<rparr>"
  using assms by (cases st) (auto simp: pair_event_def)

lemma fold_pair_event_shape:
  "(fst st)\<lparr>introduced := []\<rparr> = fresh\<lparr>introduced := []\<rparr> \<Longrightarrow>
   (fst (fold (pair_event rt fresh) evs st))\<lparr>introduced := []\<rparr> = fresh\<lparr>introduced := []\<rparr>"
  by (induction evs arbitrary: st) (simp_all add: pair_event_shape)

lemma closed_cursor_fresh:
  assumes "introduced fresh = []"
    and "introduced (fst (fold (pair_event rt fresh) evs (fresh, out))) = []"
  shows "fst (fold (pair_event rt fresh) evs (fresh, out)) = fresh"
proof -
  let ?c = "fst (fold (pair_event rt fresh) evs (fresh, out))"
  have "?c\<lparr>introduced := []\<rparr> = fresh\<lparr>introduced := []\<rparr>"
    by (rule fold_pair_event_shape) simp
  moreover have "?c\<lparr>introduced := []\<rparr> = ?c"
    using assms(2) by (metis pb_AffectedRange.surjective pb_AffectedRange.update_convs(3))
  moreover have "fresh\<lparr>introduced := []\<rparr> = fresh"
    using assms(1) by (metis pb_AffectedRange.surjective pb_AffectedRange.update_convs(3))
  ultimately show ?thesis by simp
qed

lemma emitted_fixed_in_stream:
  assumes f: "introduced fresh = []"
    and e: "ev_type e = ''fixed''"
    and c: "introduced (fst (fold (pair_event rt fresh) s1 (fresh, []))) = []"
  shows "emitted (fold (pair_event rt fresh) (s1 @ e # s2) (fresh, [])) =
           snd (fold (pair_event rt fresh) s1 (fresh, [])) @ [fresh\<lparr>fixed := ev_value e\<rparr>] @
           emitted (fold (pair_event rt fresh) s2 (fresh, []))"
proof -
  let ?st1 = "fold (pair_event rt fresh) s1 (fresh, [])"
  let ?st2 = "fold (pair_event rt fresh) s2 (fresh, [])"
  have c1: "fst ?st1 = fresh" using f c by (rule closed_cursor_fresh)
  then have st1: "?st1 = (fresh, snd ?st1)" by (metis prod.collapse)
  have "fold (pair_event rt fresh) (s1 @ e # s2) (fresh, []) =
        fold (pair_event rt fresh) s2 (pair_event rt fresh e ?st1)"
    by simp
  also have "pair_event rt fresh e ?st1 = (fresh, snd ?st1 @ [fresh\<lparr>fixed := ev_value e\<rparr>])"
    using pair_event_fixed[OF e, of rt fresh fresh "snd ?st1"] st1 by simp
  also have "fold (pair_event rt fresh) s2 (fresh, snd ?st1 @ [fresh\<lparr>fixed := ev_value e\<rparr>]) =
             (fst ?st2, (snd ?st1 @ [fresh\<lparr>fixed := ev_value e\<rparr>]) @ snd ?st2)"
    by (rule fold_pair_event_out)
  finally show ?thesis by (simp add: emitted_def)
qed

text \<open>
  C3. The export walks the sorted events of a range with a cursor \<open>cur\<close>. On an
  introduced event, when a pair is open (\<open>cur\<close> has an introduced bound) and the range
  is \<open>GIT\<close>, the open pair is emitted and a new pair starts with the value of the event;
  the cursor never carries a fixed bound, so the emitted pair has none. The sentinel \<open>0\<close>
  is stored as the empty string. At the end of the range the cursor is emitted exactly
  when its introduced bound is not empty. The method \<open>_get_pre_0_8_affects\<close> returns, for
  a range of the first affected package, the pairs so obtained, between those of the ranges
  before it and those of the ranges after it.
\<close>

theorem export_cursor:
  fixes sk :: "string \<Rightarrow> 'k::linorder"
  assumes "new_range r = Inr fresh"
  shows "(ev_type e1 = ''introduced'' \<and> introduced cur1 \<noteq> [] \<and> r_type r = ''GIT'' \<longrightarrow>
            pair_event (r_type r) fresh e1 (cur1, out) =
              (fresh\<lparr>introduced := (if ev_value e1 = ''0'' then [] else ev_value e1)\<rparr>,
               out @ [cur1])) \<and>
         (ev_type e2 = ''introduced'' \<and> introduced cur2 = [] \<longrightarrow>
            pair_event (r_type r) fresh e2 (cur2, out) =
              (cur2\<lparr>introduced := (if ev_value e2 = ''0'' then [] else ev_value e2)\<rparr>, out)) \<and>
         fixed (fst (fold (pair_event (r_type r) fresh) evs (fresh, out))) = [] \<and>
         (sorted_events sk eg eco (r_type r) (events r) = Inr (srt, left) \<longrightarrow>
            range_pairs sk eg eco r out =
              Inr (r\<lparr>events := left\<rparr>,
                   snd (fold (pair_event (r_type r) fresh) srt (fresh, out)) @
                   (if introduced (fst (fold (pair_event (r_type r) fresh) srt (fresh, out))) \<noteq> []
                    then [fst (fold (pair_event (r_type r) fresh) srt (fresh, out))] else []))) \<and>
         (affected_packages b = ap # others \<and> ranges ap = pre @ r # post \<and>
          ranges_pairs sk eg (ecosystem (package ap)) pre [] = Inr (pre', P) \<and>
          sorted_events sk eg (ecosystem (package ap)) (r_type r) (events r) = Inr (srt', left') \<and>
          ranges_pairs sk eg (ecosystem (package ap)) post [] = Inr (post', Q) \<longrightarrow>
            get_pre_0_8_affects sk eg b =
              Inr (\<lparr>affects_versions = versions ap,
                    affects_ranges =
                      P @ emitted (fold (pair_event (r_type r) fresh) srt' (fresh, [])) @ Q\<rparr>,
                   b\<lparr>affected_packages :=
                       ap\<lparr>ranges := pre' @ r\<lparr>events := left'\<rparr> # post'\<rparr> # others\<rparr>))"
proof -
  from assms have f: "introduced fresh = []" "fixed fresh = []"
    by (simp_all add: new_range_fields)
  show ?thesis
  proof (intro conjI impI)
    assume "ev_type e1 = ''introduced'' \<and> introduced cur1 \<noteq> [] \<and> r_type r = ''GIT''"
    then show "pair_event (r_type r) fresh e1 (cur1, out) =
              (fresh\<lparr>introduced := (if ev_value e1 = ''0'' then [] else ev_value e1)\<rparr>,
               out @ [cur1])"
      using f by (simp add: pair_event_introduced)
  next
    assume "ev_type e2 = ''introduced'' \<and> introduced cur2 = []"
    then show "pair_event (r_type r) fresh e2 (cur2, out) =
              (cur2\<lparr>introduced := (if ev_value e2 = ''0'' then [] else ev_value e2)\<rparr>, out)"
      by (simp add: pair_event_introduced)
  next
    show "fixed (fst (fold (pair_event (r_type r) fresh) evs (fresh, out))) = []"
      using f by (simp add: fold_pair_event_unfixed)
  next
    assume "sorted_events sk eg eco (r_type r) (events r) = Inr (srt, left)"
    with assms show "range_pairs sk eg eco r out =
              Inr (r\<lparr>events := left\<rparr>,
                   snd (fold (pair_event (r_type r) fresh) srt (fresh, out)) @
                   (if introduced (fst (fold (pair_event (r_type r) fresh) srt (fresh, out))) \<noteq> []
                    then [fst (fold (pair_event (r_type r) fresh) srt (fresh, out))] else []))"
      by (rule range_pairs_unfold)
  next
    assume a: "affected_packages b = ap # others \<and> ranges ap = pre @ r # post \<and>
          ranges_pairs sk eg (ecosystem (package ap)) pre [] = Inr (pre', P) \<and>
          sorted_events sk eg (ecosystem (package ap)) (r_type r) (events r) = Inr (srt', left') \<and>
          ranges_pairs sk eg (ecosystem (package ap)) post [] = Inr (post', Q)"
    then have 1: "affected_packages b = ap # others" and 2: "ranges ap = pre @ r # post"
      and 3: "ranges_pairs sk eg (ecosystem (package ap)) pre [] = Inr (pre', P)"
      and 4: "sorted_events sk eg (ecosystem (package ap)) (r_type r) (events r) =
                Inr (srt', left')"
      and 5: "ranges_pairs sk eg (ecosystem (package ap)) post [] = Inr (post', Q)"
      by simp_all
    show "get_pre_0_8_affects sk eg b =
              Inr (\<lparr>affects_versions = versions ap,
                    affects_ranges =
                      P @ emitted (fold (pair_event (r_type r) fresh) srt' (fresh, [])) @ Q\<rparr>,
                   b\<lparr>affected_packages :=
                       ap\<lparr>ranges := pre' @ r\<lparr>events := left'\<rparr> # post'\<rparr> # others\<rparr>)"
      using 1 2 3 assms 4 5 by (rule get_pre_0_8_affects_range)
  qed
qed

theorem export_cursor_witness:
  "get_pre_0_8_affects (\<lambda>s. s) (\<lambda>n. None)
     (example_bug\<lparr>affected_packages :=
        [\<lparr>package = \<lparr>ecosystem = ''npm'', name = ''left-pad'', purl = []\<rparr>,
          ranges =
            [\<lparr>r_type = ''SEMVER'', repo_url = None,
              events = [\<lparr>ev_type = ''fixed'', ev_value = ''2.0.0''\<rparr>,
                        \<lparr>ev_type = ''introduced'', ev_value = ''0''\<rparr>,
                        \<lparr>ev_type = ''introduced'', ev_value = ''1.5.0''\<rparr>]\<rparr>,
             \<lparr>r_type = ''GIT'', repo_url = Some ''u'',
              events = [\<lparr>ev_type = ''introduced'', ev_value = ''a''\<rparr>,
                        \<lparr>ev_type = ''introduced'', ev_value = ''c''\<rparr>,
                        \<lparr>ev_type = ''fixed'', ev_value = ''d''\<rparr>,
                        \<lparr>ev_type = ''introduced'', ev_value = ''e''\<rparr>]\<rparr>],
          versions = [''1.0'']\<rparr>]\<rparr>) =
     Inr (\<lparr>affects_versions = [''1.0''],
           affects_ranges =
             [\<lparr>pb_type = SEMVER, repo = [], introduced = ''1.5.0'', fixed = ''2.0.0''\<rparr>,
              \<lparr>pb_type = GIT, repo = ''u'', introduced = ''a'', fixed = []\<rparr>,
              \<lparr>pb_type = GIT, repo = ''u'', introduced = ''c'', fixed = ''d''\<rparr>,
              \<lparr>pb_type = GIT, repo = ''u'', introduced = ''e'', fixed = []\<rparr>]\<rparr>,
          example_bug\<lparr>affected_packages :=
            [\<lparr>package = \<lparr>ecosystem = ''npm'', name = ''left-pad'', purl = []\<rparr>,
              ranges =
                [\<lparr>r_type = ''SEMVER'', repo_url = None,
                  events = [\<lparr>ev_type = ''fixed'', ev_value = ''2.0.0''\<rparr>,
                            \<lparr>ev_type = ''introduced'', ev_value = ''1.5.0''\<rparr>]\<rparr>,
                 \<lparr>r_type = ''GIT'', repo_url = Some ''u'',
                  events = [\<lparr>ev_type = ''introduced'', ev_value = ''a''\<rparr>,
                            \<lparr>ev_type = ''introduced'', ev_value = ''c''\<rparr>,
                            \<lparr>ev_type = ''fixed'', ev_value = ''d''\<rparr>,
                            \<lparr>ev_type = ''introduced'', ev_value = ''e''\<rparr>]\<rparr>],
              versions = [''1.0'']\<rparr>]\<rparr>) \<and>
   pair_event ''GIT'' \<lparr>pb_type = GIT, repo = ''u'', introduced = [], fixed = []\<rparr>
     \<lparr>ev_type = ''introduced'', ev_value = ''c''\<rparr>
     (\<lparr>pb_type = GIT, repo = ''u'', introduced = ''a'', fixed = []\<rparr>, []) =
     (\<lparr>pb_type = GIT, repo = ''u'', introduced = ''c'', fixed = []\<rparr>,
      [\<lparr>pb_type = GIT, repo = ''u'', introduced = ''a'', fixed = []\<rparr>]) \<and>
   pair_event ''GIT'' \<lparr>pb_type = GIT, repo = ''u'', introduced = [], fixed = []\<rparr>
     \<lparr>ev_type = ''introduced'', ev_value = ''0''\<rparr>
     (\<lparr>pb_type = GIT, repo = ''u'', introduced = [], fixed = []\<rparr>, []) =
     (\<lparr>pb_type = GIT, repo = ''u'', introduced = [], fixed = []\<rparr>, []) \<and>
   range_pairs (\<lambda>s. s) (\<lambda>n. None) ''npm''
     \<lparr>r_type = ''GIT'', repo_url = Some ''u'',
      events = [\<lparr>ev_type = ''introduced'', ev_value = ''a''\<rparr>,
                \<lparr>ev_type = ''introduced'', ev_value = ''c''\<rparr>,
                \<lparr>ev_type = ''fixed'', ev_value = ''d''\<rparr>,
                \<lparr>ev_type = ''introduced'', ev_value = ''e''\<rparr>]\<rparr> [] =
     Inr (\<lparr>r_type = ''GIT'', repo_url = Some ''u'',
           events = [\<lparr>ev_type = ''introduced'', ev_value = ''a''\<rparr>,
                     \<lparr>ev_type = ''introduced'', ev_value = ''c''\<rparr>,
                     \<lparr>ev_type = ''fixed'', ev_value = ''d''\<rparr>,
                     \<lparr>ev_type = ''introduced'', ev_value = ''e''\<rparr>]\<rparr>,
          [\<lparr>pb_type = GIT, repo = ''u'', introduced = ''a'', fixed = []\<rparr>,
           \<lparr>pb_type = GIT, repo = ''u'', introduced = ''c'', fixed = ''d''\<rparr>,
           \<lparr>pb_type = GIT, repo = ''u'', introduced = ''e'', fixed = []\<rparr>])"
proof -
  let ?sem = "[\<lparr>ev_type = ''fixed'', ev_value = ''2.0.0''\<rparr>,
               \<lparr>ev_type = ''introduced'', ev_value = ''0''\<rparr>,
               \<lparr>ev_type = ''introduced'', ev_value = ''1.5.0''\<rparr>]"
  let ?sem' = "[\<lparr>ev_type = ''fixed'', ev_value = ''2.0.0''\<rparr>,
                \<lparr>ev_type = ''introduced'', ev_value = ''1.5.0''\<rparr>]"
  let ?evs = "[\<lparr>ev_type = ''introduced'', ev_value = ''a''\<rparr>,
               \<lparr>ev_type = ''introduced'', ev_value = ''c''\<rparr>,
               \<lparr>ev_type = ''fixed'', ev_value = ''d''\<rparr>,
               \<lparr>ev_type = ''introduced'', ev_value = ''e''\<rparr>]"
  let ?s = "\<lparr>r_type = ''SEMVER'', repo_url = None, events = ?sem\<rparr>"
  let ?r = "\<lparr>r_type = ''GIT'', repo_url = Some ''u'', events = ?evs\<rparr>"
  let ?ap = "\<lparr>package = \<lparr>ecosystem = ''npm'', name = ''left-pad'', purl = []\<rparr>,
              ranges = [?s, ?r], versions = [''1.0'']\<rparr>"
  let ?b = "example_bug\<lparr>affected_packages := [?ap]\<rparr>"
  let ?fresh = "\<lparr>pb_type = GIT, repo = ''u'', introduced = [], fixed = []\<rparr>"
  let ?P = "[\<lparr>pb_type = SEMVER, repo = [], introduced = ''1.5.0'', fixed = ''2.0.0''\<rparr>]"
  have nr: "new_range ?r = Inr ?fresh"
    by (simp add: new_range_def Type_Value_def)
  have se: "sorted_events (\<lambda>s::string. s) (\<lambda>n. None) ''npm'' (r_type ?r) (events ?r) =
              Inr (?evs, ?evs)"
    by (simp add: sorted_events_def)
  have ss: "sorted_events (\<lambda>s::string. s) (\<lambda>n. None) ''npm'' ''SEMVER'' ?sem =
              Inr ([\<lparr>ev_type = ''introduced'', ev_value = ''0''\<rparr>,
                    \<lparr>ev_type = ''introduced'', ev_value = ''1.5.0''\<rparr>,
                    \<lparr>ev_type = ''fixed'', ev_value = ''2.0.0''\<rparr>], ?sem')"
    by (simp add: sorted_events_not_git is_zero_def last_zero_def)
  have pre: "ranges_pairs (\<lambda>s::string. s) (\<lambda>n. None) (ecosystem (package ?ap)) [?s] [] =
               Inr ([?s\<lparr>events := ?sem'\<rparr>], ?P)"
    by (simp add: range_pairs_def new_range_def Type_Value_def ss pair_event_def)
  have post: "ranges_pairs (\<lambda>s::string. s) (\<lambda>n. None) (ecosystem (package ?ap)) [] [] =
                Inr ([], [])"
    by simp
  have ap: "affected_packages ?b = ?ap # []" "ranges ?ap = [?s] @ ?r # []"
    by simp_all
  have se': "sorted_events (\<lambda>s::string. s) (\<lambda>n. None) (ecosystem (package ?ap))
               (r_type ?r) (events ?r) = Inr (?evs, ?evs)"
    by (simp add: sorted_events_def)
  from export_cursor[OF nr, where ?e1.0 = "\<lparr>ev_type = ''introduced'', ev_value = ''c''\<rparr>"
      and ?cur1.0 = "?fresh\<lparr>introduced := ''a''\<rparr>"
      and ?e2.0 = "\<lparr>ev_type = ''introduced'', ev_value = ''0''\<rparr>" and ?cur2.0 = ?fresh
      and out = "[]" and sk = "\<lambda>s::string. s" and eg = "\<lambda>n. None" and eco = "''npm''"
      and srt = ?evs and left = ?evs and evs = "[]"
      and b = ?b and ap = ?ap and others = "[]" and pre = "[?s]" and post = "[]"
      and pre' = "[?s\<lparr>events := ?sem'\<rparr>]" and P = ?P and srt' = ?evs and left' = ?evs
      and post' = "[]" and Q = "[]"] se ap pre se' post
  show ?thesis
    by (simp add: pair_event_def emitted_def)
qed

text \<open>
  C9. A fixed event met while the cursor has no introduced bound still emits a pair: the
  pair has an empty introduced bound and the value of the event as its fixed bound. A
  range whose sorted events are this one event exports exactly that pair. In the result of
  \<open>_get_pre_0_8_affects\<close>, a fixed event of a range of the first affected package that
  the cursor meets without an introduced bound gives that pair, after the pairs of the
  events before it and before those of the events after it.
\<close>

theorem fixed_without_introduced:
  fixes sk :: "string \<Rightarrow> 'k::linorder"
  assumes "ev_type e = ''fixed''" and "introduced cur = []"
  shows "pair_event rt fresh e (cur, out) = (fresh, out @ [cur\<lparr>fixed := ev_value e\<rparr>]) \<and>
         introduced (cur\<lparr>fixed := ev_value e\<rparr>) = [] \<and>
         fixed (cur\<lparr>fixed := ev_value e\<rparr>) = ev_value e \<and>
         (new_range r = Inr fresh' \<longrightarrow>
          sorted_events sk eg eco (r_type r) (events r) = Inr ([e], left) \<longrightarrow>
            range_pairs sk eg eco r out =
              Inr (r\<lparr>events := left\<rparr>, out @ [fresh'\<lparr>fixed := ev_value e\<rparr>])) \<and>
         (new_range r = Inr fresh' \<longrightarrow>
          affected_packages b = ap # others \<longrightarrow> ranges ap = pre @ r # post \<longrightarrow>
          ranges_pairs sk eg (ecosystem (package ap)) pre [] = Inr (pre', P) \<longrightarrow>
          sorted_events sk eg (ecosystem (package ap)) (r_type r) (events r) =
            Inr (s1 @ e # s2, left') \<longrightarrow>
          introduced (fst (fold (pair_event (r_type r) fresh') s1 (fresh', []))) = [] \<longrightarrow>
          ranges_pairs sk eg (ecosystem (package ap)) post [] = Inr (post', Q) \<longrightarrow>
            get_pre_0_8_affects sk eg b =
              Inr (\<lparr>affects_versions = versions ap,
                    affects_ranges =
                      P @ snd (fold (pair_event (r_type r) fresh') s1 (fresh', [])) @
                      [fresh'\<lparr>fixed := ev_value e\<rparr>] @
                      emitted (fold (pair_event (r_type r) fresh') s2 (fresh', [])) @ Q\<rparr>,
                   b\<lparr>affected_packages :=
                       ap\<lparr>ranges := pre' @ r\<lparr>events := left'\<rparr> # post'\<rparr> # others\<rparr>) \<and>
            introduced (fresh'\<lparr>fixed := ev_value e\<rparr>) = [] \<and>
            fixed (fresh'\<lparr>fixed := ev_value e\<rparr>) = ev_value e)"
proof (intro conjI impI)
  show "pair_event rt fresh e (cur, out) = (fresh, out @ [cur\<lparr>fixed := ev_value e\<rparr>])"
    using assms(1) by (rule pair_event_fixed)
  show "introduced (cur\<lparr>fixed := ev_value e\<rparr>) = []"
    using assms(2) by simp
  show "fixed (cur\<lparr>fixed := ev_value e\<rparr>) = ev_value e"
    by simp
next
  assume nr: "new_range r = Inr fresh'"
    and se: "sorted_events sk eg eco (r_type r) (events r) = Inr ([e], left)"
  from nr have "introduced fresh' = []" by (simp add: new_range_fields)
  then show "range_pairs sk eg eco r out =
              Inr (r\<lparr>events := left\<rparr>, out @ [fresh'\<lparr>fixed := ev_value e\<rparr>])"
    using range_pairs_unfold[OF nr se, of out] assms(1)
    by (simp add: pair_event_fixed)
next
  assume nr: "new_range r = Inr fresh'"
    and ap: "affected_packages b = ap # others" and rg: "ranges ap = pre @ r # post"
    and pre: "ranges_pairs sk eg (ecosystem (package ap)) pre [] = Inr (pre', P)"
    and se: "sorted_events sk eg (ecosystem (package ap)) (r_type r) (events r) =
               Inr (s1 @ e # s2, left')"
    and c: "introduced (fst (fold (pair_event (r_type r) fresh') s1 (fresh', []))) = []"
    and post: "ranges_pairs sk eg (ecosystem (package ap)) post [] = Inr (post', Q)"
  from nr have f: "introduced fresh' = []" by (simp add: new_range_fields)
  have "emitted (fold (pair_event (r_type r) fresh') (s1 @ e # s2) (fresh', [])) =
          snd (fold (pair_event (r_type r) fresh') s1 (fresh', [])) @
          [fresh'\<lparr>fixed := ev_value e\<rparr>] @
          emitted (fold (pair_event (r_type r) fresh') s2 (fresh', []))"
    using f assms(1) c by (rule emitted_fixed_in_stream)
  with get_pre_0_8_affects_range[OF ap rg pre nr se post]
  show "get_pre_0_8_affects sk eg b =
              Inr (\<lparr>affects_versions = versions ap,
                    affects_ranges =
                      P @ snd (fold (pair_event (r_type r) fresh') s1 (fresh', [])) @
                      [fresh'\<lparr>fixed := ev_value e\<rparr>] @
                      emitted (fold (pair_event (r_type r) fresh') s2 (fresh', [])) @ Q\<rparr>,
                   b\<lparr>affected_packages :=
                       ap\<lparr>ranges := pre' @ r\<lparr>events := left'\<rparr> # post'\<rparr> # others\<rparr>)"
    by simp
  show "introduced (fresh'\<lparr>fixed := ev_value e\<rparr>) = []"
    using f by simp
  show "fixed (fresh'\<lparr>fixed := ev_value e\<rparr>) = ev_value e"
    by simp
qed

theorem fixed_without_introduced_witness:
  "get_pre_0_8_affects (\<lambda>s. s) (\<lambda>n. None)
     (example_bug\<lparr>affected_packages :=
        [\<lparr>package = \<lparr>ecosystem = ''npm'', name = ''left-pad'', purl = []\<rparr>,
          ranges =
            [\<lparr>r_type = ''SEMVER'', repo_url = None,
              events = [\<lparr>ev_type = ''introduced'', ev_value = ''2.0''\<rparr>,
                        \<lparr>ev_type = ''fixed'', ev_value = ''1.2.3''\<rparr>]\<rparr>],
          versions = []\<rparr>]\<rparr>) =
     Inr (\<lparr>affects_versions = [],
           affects_ranges =
             [\<lparr>pb_type = SEMVER, repo = [], introduced = [], fixed = ''1.2.3''\<rparr>,
              \<lparr>pb_type = SEMVER, repo = [], introduced = ''2.0'', fixed = []\<rparr>]\<rparr>,
          example_bug\<lparr>affected_packages :=
            [\<lparr>package = \<lparr>ecosystem = ''npm'', name = ''left-pad'', purl = []\<rparr>,
              ranges =
                [\<lparr>r_type = ''SEMVER'', repo_url = None,
                  events = [\<lparr>ev_type = ''introduced'', ev_value = ''2.0''\<rparr>,
                            \<lparr>ev_type = ''fixed'', ev_value = ''1.2.3''\<rparr>]\<rparr>],
              versions = []\<rparr>]\<rparr>) \<and>
   range_pairs (\<lambda>s. s) (\<lambda>n. None) ''npm''
     \<lparr>r_type = ''SEMVER'', repo_url = None,
      events = [\<lparr>ev_type = ''fixed'', ev_value = ''1.2.3''\<rparr>]\<rparr> [] =
   Inr (\<lparr>r_type = ''SEMVER'', repo_url = None,
         events = [\<lparr>ev_type = ''fixed'', ev_value = ''1.2.3''\<rparr>]\<rparr>,
        [\<lparr>pb_type = SEMVER, repo = [], introduced = [], fixed = ''1.2.3''\<rparr>])"
proof -
  let ?e = "\<lparr>ev_type = ''fixed'', ev_value = ''1.2.3''\<rparr>"
  let ?i = "\<lparr>ev_type = ''introduced'', ev_value = ''2.0''\<rparr>"
  let ?r1 = "\<lparr>r_type = ''SEMVER'', repo_url = None, events = [?e]\<rparr>"
  let ?r = "\<lparr>r_type = ''SEMVER'', repo_url = None, events = [?i, ?e]\<rparr>"
  let ?ap = "\<lparr>package = \<lparr>ecosystem = ''npm'', name = ''left-pad'', purl = []\<rparr>,
              ranges = [?r], versions = []\<rparr>"
  let ?b = "example_bug\<lparr>affected_packages := [?ap]\<rparr>"
  let ?fresh = "\<lparr>pb_type = SEMVER, repo = [], introduced = [], fixed = []\<rparr>"
  have t: "ev_type ?e = ''fixed''" by simp
  have i: "introduced ?fresh = []" by simp
  have nr1: "new_range ?r1 = Inr ?fresh"
    by (simp add: new_range_def Type_Value_def)
  have se1: "sorted_events (\<lambda>s::string. s) (\<lambda>n. None) ''npm'' (r_type ?r1) (events ?r1) =
              Inr ([?e], [?e])"
    by (simp add: sorted_events_not_git is_zero_def last_zero_def)
  have nr: "new_range ?r = Inr ?fresh"
    by (simp add: new_range_def Type_Value_def)
  have ap: "affected_packages ?b = ?ap # []" "ranges ?ap = [] @ ?r # []"
    by simp_all
  have em: "ranges_pairs (\<lambda>s::string. s) (\<lambda>n. None) (ecosystem (package ?ap)) [] [] =
              Inr ([], [])"
    by simp
  have se: "sorted_events (\<lambda>s::string. s) (\<lambda>n. None) (ecosystem (package ?ap))
              (r_type ?r) (events ?r) = Inr ([] @ ?e # [?i], [?i, ?e])"
    by (simp add: sorted_events_not_git is_zero_def last_zero_def)
  have c: "introduced (fst (fold (pair_event (r_type ?r) ?fresh) [] (?fresh, []))) = []"
    by simp
  from fixed_without_introduced[OF t i, where r = ?r1 and fresh' = ?fresh
      and sk = "\<lambda>s::string. s" and eg = "\<lambda>n. None" and eco = "''npm''" and left = "[?e]"
      and out = "[]" and rt = "''SEMVER''" and fresh = ?fresh] nr1 se1
  have 1: "range_pairs (\<lambda>s::string. s) (\<lambda>n. None) ''npm'' ?r1 [] =
             Inr (?r1, [\<lparr>pb_type = SEMVER, repo = [], introduced = [], fixed = ''1.2.3''\<rparr>])"
    by simp
  from fixed_without_introduced[OF t i, where r = ?r and fresh' = ?fresh
      and sk = "\<lambda>s::string. s" and eg = "\<lambda>n. None" and b = ?b and ap = ?ap
      and others = "[]" and pre = "[]" and post = "[]" and pre' = "[]" and P = "[]"
      and ?s1.0 = "[]" and ?s2.0 = "[?i]" and left' = "[?i, ?e]" and post' = "[]"
      and Q = "[]"] nr ap em se c
  have 2: "get_pre_0_8_affects (\<lambda>s::string. s) (\<lambda>n. None) ?b =
             Inr (\<lparr>affects_versions = [],
                   affects_ranges =
                     [\<lparr>pb_type = SEMVER, repo = [], introduced = [], fixed = ''1.2.3''\<rparr>,
                      \<lparr>pb_type = SEMVER, repo = [], introduced = ''2.0'', fixed = []\<rparr>]\<rparr>,
                  ?b)"
    by (simp add: pair_event_def emitted_def)
  from 1 2 show ?thesis by simp
qed

text \<open>
  C10. The export ignores limit events. The step of the cursor leaves its state as it is
  on a limit event, and on any event that is neither introduced nor fixed, so the pairs of
  a range are those of the introduced and fixed events of its sorted event stream: walking
  the stream and walking it without those events give the same pairs.
\<close>

theorem export_ignores_limit:
  fixes sk :: "string \<Rightarrow> 'k::linorder"
  shows "(ev_type e = ''limit'' \<longrightarrow> pair_event rt fresh e st = st) \<and>
         fold (pair_event rt fresh) evs st =
           fold (pair_event rt fresh) [x \<leftarrow> evs. ev_type x \<noteq> ''limit''] st \<and>
         (new_range r = Inr fresh' \<longrightarrow>
          sorted_events sk eg eco (r_type r) (events r) = Inr (srt, left) \<longrightarrow>
            range_pairs sk eg eco r out =
              Inr (r\<lparr>events := left\<rparr>,
                   (let (cur, out') =
                          fold (pair_event (r_type r) fresh')
                            [x \<leftarrow> srt. ev_type x = ''introduced'' \<or> ev_type x = ''fixed'']
                            (fresh', out)
                    in if introduced cur \<noteq> [] then out' @ [cur] else out')))"
proof (intro conjI impI)
  assume "ev_type e = ''limit''"
  then show "pair_event rt fresh e st = st"
    by (simp add: pair_event_other)
next
  show "fold (pair_event rt fresh) evs st =
        fold (pair_event rt fresh) [x \<leftarrow> evs. ev_type x \<noteq> ''limit''] st"
    by (induction evs arbitrary: st) (auto simp: pair_event_other)
next
  assume nr: "new_range r = Inr fresh'"
    and se: "sorted_events sk eg eco (r_type r) (events r) = Inr (srt, left)"
  show "range_pairs sk eg eco r out =
              Inr (r\<lparr>events := left\<rparr>,
                   (let (cur, out') =
                          fold (pair_event (r_type r) fresh')
                            [x \<leftarrow> srt. ev_type x = ''introduced'' \<or> ev_type x = ''fixed'']
                            (fresh', out)
                    in if introduced cur \<noteq> [] then out' @ [cur] else out'))"
    using range_pairs_unfold[OF nr se, of out]
    by (simp add: fold_pair_event_filter[symmetric] split_beta)
qed

theorem export_ignores_limit_witness:
  "range_pairs (\<lambda>s. s) (\<lambda>n. None) ''npm''
     \<lparr>r_type = ''GIT'', repo_url = None,
      events = [\<lparr>ev_type = ''introduced'', ev_value = ''a''\<rparr>,
                \<lparr>ev_type = ''limit'', ev_value = ''c''\<rparr>,
                \<lparr>ev_type = ''fixed'', ev_value = ''b''\<rparr>]\<rparr> [] =
   Inr (\<lparr>r_type = ''GIT'', repo_url = None,
         events = [\<lparr>ev_type = ''introduced'', ev_value = ''a''\<rparr>,
                   \<lparr>ev_type = ''limit'', ev_value = ''c''\<rparr>,
                   \<lparr>ev_type = ''fixed'', ev_value = ''b''\<rparr>]\<rparr>,
        [\<lparr>pb_type = GIT, repo = [], introduced = ''a'', fixed = ''b''\<rparr>]) \<and>
   pair_event ''GIT'' \<lparr>pb_type = GIT, repo = [], introduced = [], fixed = []\<rparr>
     \<lparr>ev_type = ''limit'', ev_value = ''c''\<rparr>
     (\<lparr>pb_type = GIT, repo = [], introduced = ''a'', fixed = []\<rparr>, []) =
     (\<lparr>pb_type = GIT, repo = [], introduced = ''a'', fixed = []\<rparr>, [])"
proof -
  let ?evs = "[\<lparr>ev_type = ''introduced'', ev_value = ''a''\<rparr>,
               \<lparr>ev_type = ''limit'', ev_value = ''c''\<rparr>,
               \<lparr>ev_type = ''fixed'', ev_value = ''b''\<rparr>]"
  let ?r = "\<lparr>r_type = ''GIT'', repo_url = None, events = ?evs\<rparr>"
  let ?fresh = "\<lparr>pb_type = GIT, repo = [], introduced = [], fixed = []\<rparr>"
  have nr: "new_range ?r = Inr ?fresh"
    by (simp add: new_range_def Type_Value_def)
  have se: "sorted_events (\<lambda>s::string. s) (\<lambda>n. None) ''npm'' (r_type ?r) (events ?r) =
              Inr (?evs, ?evs)"
    by (simp add: sorted_events_def)
  from export_ignores_limit[where r = ?r and fresh' = ?fresh
      and sk = "\<lambda>s::string. s" and eg = "\<lambda>n. None" and eco = "''npm''"
      and srt = ?evs and left = ?evs and out = "[]" and rt = "''GIT''" and fresh = ?fresh
      and e = "\<lparr>ev_type = ''limit'', ev_value = ''c''\<rparr>" and evs = "[]"
      and st = "(?fresh\<lparr>introduced := ''a''\<rparr>, [])"] nr se
  show ?thesis
    by (simp add: pair_event_def)
qed

section \<open>From legacy pairs to events\<close>


lemma first_seen_Nil [simp]: "first_seen [] = []"
  by (simp add: first_seen_def)

lemma set_first_seen [simp]: "set (first_seen xs) = set xs"
  by (simp add: first_seen_def)

lemma distinct_first_seen [simp]: "distinct (first_seen xs)"
  by (simp add: first_seen_def)

lemma first_seen_snoc: "first_seen (xs @ [x]) = append_new x (first_seen xs)"
  by (simp add: first_seen_def append_new_def)

lemma first_seen_append: "first_seen (xs @ ys) = fold append_new ys (first_seen xs)"
proof (induction ys arbitrary: xs)
  case Nil
  then show ?case by simp
next
  case (Cons y ys)
  have "first_seen (xs @ y # ys) = first_seen ((xs @ [y]) @ ys)" by simp
  also have "\<dots> = fold append_new ys (first_seen (xs @ [y]))" by (rule Cons.IH)
  finally show ?case by (simp add: first_seen_snoc)
qed

lemma first_seen_distinct: "distinct xs \<Longrightarrow> first_seen xs = xs"
  by (simp add: first_seen_def distinct_remdups_id)

lemma dict_setdefault_table:
  "dict_setdefault k v (map (\<lambda>x. (x, f x)) ks) =
     (if k \<in> set ks then map (\<lambda>x. (x, f x)) ks else map (\<lambda>x. (x, f x)) ks @ [(k, v)])"
  by (induction ks) auto

lemma map_of_table:
  "map_of (map (\<lambda>x. (x, f x)) ks) k = (if k \<in> set ks then Some (f k) else None)"
  by (induction ks) auto

lemma dict_store_table:
  "distinct ks \<Longrightarrow>
   dict_store k v (map (\<lambda>x. (x, f x)) ks) = map (\<lambda>x. (x, if x = k then v else f x)) ks"
  by (induction ks) auto

lemma dict_store_snoc:
  "k \<notin> set ks \<Longrightarrow>
   dict_store k v (map (\<lambda>x. (x, f x)) ks @ [(k, w)]) = map (\<lambda>x. (x, f x)) ks @ [(k, v)]"
  by (induction ks) auto

lemma merge_range_eq:
  "merge_range p d =
     Inr (dict_store (range_key p)
            (fold append_new (pair_events p)
               (case map_of (dict_setdefault (range_key p) [] d) (range_key p) of
                  None \<Rightarrow> [] | Some l \<Rightarrow> l))
            (dict_setdefault (range_key p) [] d))"
  by (simp add: merge_range_def range_key_def pair_events_def new_AffectedEvent_def
      check_valid_event_type_def Let_def)

lemma group_events_snoc:
  "group_events (ps @ [q]) k =
     (if k = range_key q then fold append_new (pair_events q) (group_events ps k)
      else group_events ps k)"
  by (simp add: group_events_def first_seen_append)

lemma group_events_absent:
  "k \<notin> range_key ` set ps \<Longrightarrow> group_events ps k = []"
proof -
  assume "k \<notin> range_key ` set ps"
  then have "[p \<leftarrow> ps. range_key p = k] = []"
    by (auto simp: filter_empty_conv)
  then show ?thesis by (simp add: group_events_def)
qed

lemma merge_range_table:
  "merge_range q (group_table ps) = Inr (group_table (ps @ [q]))"
proof (cases "range_key q \<in> range_key ` set ps")
  case True
  then have a: "append_new (range_key q) (first_seen (map range_key ps)) =
                first_seen (map range_key ps)"
    by (simp add: append_new_def)
  show ?thesis
    using True
    by (simp add: merge_range_eq group_table_def dict_setdefault_table map_of_table
        dict_store_table first_seen_snoc a group_events_snoc)
next
  case False
  then have a: "append_new (range_key q) (first_seen (map range_key ps)) =
                first_seen (map range_key ps) @ [range_key q]"
    by (simp add: append_new_def)
  have b: "map (\<lambda>x. (x, group_events (ps @ [q]) x)) (first_seen (map range_key ps)) =
           map (\<lambda>x. (x, group_events ps x)) (first_seen (map range_key ps))"
    using False by (auto simp: group_events_snoc) (metis image_eqI)
  have nk: "\<not> (\<exists>x\<in>set ps. range_key x = range_key q)"
    using False by (metis image_eqI)
  have c: "map_of (map (\<lambda>k. (k, group_events ps k)) (first_seen (map range_key ps)) @
                   [(range_key q, [])]) (range_key q) = Some []"
    using False by (simp add: map_add_def map_of_table)
  show ?thesis
    using False nk
    by (simp add: merge_range_eq group_table_def dict_setdefault_table c
        dict_store_snoc first_seen_snoc a b group_events_snoc group_events_absent
        del: map_of_append)
qed

lemma merge_ranges_table:
  "merge_ranges qs (group_table ps) = Inr (group_table (ps @ qs))"
proof (induction qs arbitrary: ps)
  case Nil
  then show ?case by simp
next
  case (Cons q qs)
  have "merge_ranges (q # qs) (group_table ps) = merge_ranges qs (group_table (ps @ [q]))"
    by (simp add: merge_range_table)
  also have "\<dots> = Inr (group_table ((ps @ [q]) @ qs))" by (rule Cons.IH)
  finally show ?case by simp
qed

lemma merge_ranges_empty: "merge_ranges ps [] = Inr (group_table ps)"
  using merge_ranges_table[of ps "[]"] by (simp add: group_table_def)

lemma build_ranges_eq:
  "\<forall>g \<in> set d. fst (fst g) \<in> set [''GIT'', ''SEMVER'', ''ECOSYSTEM''] \<Longrightarrow>
   build_ranges d rs = Inr (rs @ map range_of_group d)"
proof (induction d arbitrary: rs)
  case Nil
  then show ?case by simp
next
  case (Cons g d)
  obtain t u evs where g: "g = ((t, u), evs)" by (metis prod.collapse)
  from Cons.prems have v: "t \<in> set [''GIT'', ''SEMVER'', ''ECOSYSTEM'']"
    and rest: "\<forall>g \<in> set d. fst (fst g) \<in> set [''GIT'', ''SEMVER'', ''ECOSYSTEM'']"
    by (auto simp: g)
  from v have nr: "new_AffectedRange2 t evs = Inr \<lparr>r_type = t, repo_url = None, events = evs\<rparr>"
    by (simp add: new_AffectedRange2_def check_valid_range_type_def)
  show ?case
    using Cons.IH[OF rest] nr by (simp add: g range_of_group_def)
qed

lemma Type_Name_valid: "Type_Name t \<in> set [''GIT'', ''SEMVER'', ''ECOSYSTEM'']"
  by (cases t) simp_all

lemma build_ranges_table: "build_ranges (group_table ps) [] = Inr (merged_ranges ps)"
proof -
  have "\<forall>g \<in> set (group_table ps). fst (fst g) \<in> set [''GIT'', ''SEMVER'', ''ECOSYSTEM'']"
    using Type_Name_valid by (auto simp: group_table_def range_key_def)
  then have "build_ranges (group_table ps) [] = Inr ([] @ map range_of_group (group_table ps))"
    by (rule build_ranges_eq)
  then show ?thesis
    by (simp add: group_table_def merged_ranges_def range_of_group_def comp_def)
qed

lemma update_from_vulnerability_eq:
  "\<exists>b'. update_from_vulnerability b v = Inr b' \<and>
     affected_packages b' =
       (case affected_packages b of [] \<Rightarrow> empty_AffectedPackage | ap # rest \<Rightarrow> ap)
         \<lparr>package := v_package v, versions := affects_versions (affects v),
          ranges := merged_ranges (affects_ranges (affects v))\<rparr> #
       tl (affected_packages b)"
  by (simp add: update_from_vulnerability_def merge_ranges_empty build_ranges_table Let_def
      split: option.splits list.splits)

text \<open>
  C4. \<open>update_from_vulnerability\<close> succeeds on every payload and leaves, in the first
  affected package, the ranges \<open>merged_ranges\<close> of the incoming legacy pairs: one range
  per \<open>(type, repository)\<close> group in first-seen order, whose events are the introduced
  and fixed events of the pairs of the group (an empty introduced bound being the
  sentinel \<open>0\<close>), each kept once, and whose repository is set only for type \<open>GIT\<close> with
  a non-empty repository. The ranges that the package had before do not occur in the
  result.
\<close>

theorem update_from_vulnerability_ranges:
  "\<exists>b'. update_from_vulnerability b v = Inr b' \<and>
     affected_packages b' =
       (case affected_packages b of [] \<Rightarrow> empty_AffectedPackage | ap # rest \<Rightarrow> ap)
         \<lparr>package := v_package v, versions := affects_versions (affects v),
          ranges := merged_ranges (affects_ranges (affects v))\<rparr> #
       tl (affected_packages b) \<and>
     map (\<lambda>r. (r_type r, events r)) (merged_ranges (affects_ranges (affects v))) =
       map (\<lambda>k. (fst k, group_events (affects_ranges (affects v)) k))
         (first_seen (map range_key (affects_ranges (affects v)))) \<and>
     distinct (first_seen (map range_key (affects_ranges (affects v)))) \<and>
     set (first_seen (map range_key (affects_ranges (affects v)))) =
       range_key ` set (affects_ranges (affects v)) \<and>
     (\<forall>k. distinct (group_events (affects_ranges (affects v)) k) \<and>
          set (group_events (affects_ranges (affects v)) k) =
            (\<Union>p \<in> {p \<in> set (affects_ranges (affects v)). range_key p = k}.
               set (pair_events p)))"
proof -
  from update_from_vulnerability_eq[of b v] obtain b' where
    "update_from_vulnerability b v = Inr b'"
    and "affected_packages b' =
       (case affected_packages b of [] \<Rightarrow> empty_AffectedPackage | ap # rest \<Rightarrow> ap)
         \<lparr>package := v_package v, versions := affects_versions (affects v),
          ranges := merged_ranges (affects_ranges (affects v))\<rparr> #
       tl (affected_packages b)"
    by blast
  moreover have "map (\<lambda>r. (r_type r, events r)) (merged_ranges (affects_ranges (affects v))) =
       map (\<lambda>k. (fst k, group_events (affects_ranges (affects v)) k))
         (first_seen (map range_key (affects_ranges (affects v))))"
    by (simp add: merged_ranges_def comp_def)
  moreover have "\<forall>k. distinct (group_events (affects_ranges (affects v)) k) \<and>
          set (group_events (affects_ranges (affects v)) k) =
            (\<Union>p \<in> {p \<in> set (affects_ranges (affects v)). range_key p = k}.
               set (pair_events p))"
    by (auto simp: group_events_def)
  ultimately show ?thesis by simp
qed

theorem update_from_vulnerability_ranges_witness:
  "map_sum id (\<lambda>b. map ranges (affected_packages b))
     (update_from_vulnerability
        (example_bug\<lparr>affected_packages :=
           [\<lparr>package = \<lparr>ecosystem = ''x'', name = ''y'', purl = []\<rparr>,
             ranges = [\<lparr>r_type = ''ECOSYSTEM'', repo_url = None,
                        events = [\<lparr>ev_type = ''introduced'', ev_value = ''9''\<rparr>]\<rparr>],
             versions = []\<rparr>]\<rparr>)
        (example_vulnerability
           [\<lparr>pb_type = GIT, repo = ''r'', introduced = ''a'', fixed = ''b''\<rparr>,
            \<lparr>pb_type = SEMVER, repo = [], introduced = [], fixed = ''1.0.0''\<rparr>,
            \<lparr>pb_type = GIT, repo = ''r'', introduced = ''c'', fixed = []\<rparr>,
            \<lparr>pb_type = GIT, repo = ''r'', introduced = ''a'', fixed = ''b''\<rparr>])) =
   Inr [[\<lparr>r_type = ''GIT'', repo_url = Some ''r'',
          events = [\<lparr>ev_type = ''introduced'', ev_value = ''a''\<rparr>,
                    \<lparr>ev_type = ''fixed'', ev_value = ''b''\<rparr>,
                    \<lparr>ev_type = ''introduced'', ev_value = ''c''\<rparr>]\<rparr>,
         \<lparr>r_type = ''SEMVER'', repo_url = None,
          events = [\<lparr>ev_type = ''introduced'', ev_value = ''0''\<rparr>,
                    \<lparr>ev_type = ''fixed'', ev_value = ''1.0.0''\<rparr>]\<rparr>]]"
proof -
  let ?b = "example_bug\<lparr>affected_packages :=
           [\<lparr>package = \<lparr>ecosystem = ''x'', name = ''y'', purl = []\<rparr>,
             ranges = [\<lparr>r_type = ''ECOSYSTEM'', repo_url = None,
                        events = [\<lparr>ev_type = ''introduced'', ev_value = ''9''\<rparr>]\<rparr>],
             versions = []\<rparr>]\<rparr>"
  let ?ps = "[\<lparr>pb_type = GIT, repo = ''r'', introduced = ''a'', fixed = ''b''\<rparr>,
            \<lparr>pb_type = SEMVER, repo = [], introduced = [], fixed = ''1.0.0''\<rparr>,
            \<lparr>pb_type = GIT, repo = ''r'', introduced = ''c'', fixed = []\<rparr>,
            \<lparr>pb_type = GIT, repo = ''r'', introduced = ''a'', fixed = ''b''\<rparr>]"
  have m: "merged_ranges ?ps =
     [\<lparr>r_type = ''GIT'', repo_url = Some ''r'',
          events = [\<lparr>ev_type = ''introduced'', ev_value = ''a''\<rparr>,
                    \<lparr>ev_type = ''fixed'', ev_value = ''b''\<rparr>,
                    \<lparr>ev_type = ''introduced'', ev_value = ''c''\<rparr>]\<rparr>,
         \<lparr>r_type = ''SEMVER'', repo_url = None,
          events = [\<lparr>ev_type = ''introduced'', ev_value = ''0''\<rparr>,
                    \<lparr>ev_type = ''fixed'', ev_value = ''1.0.0''\<rparr>]\<rparr>]"
    by (simp add: merged_ranges_def first_seen_def group_events_def range_key_def
        pair_events_def)
  from update_from_vulnerability_ranges[of ?b "example_vulnerability ?ps"]
  obtain b' where "update_from_vulnerability ?b (example_vulnerability ?ps) = Inr b'"
    and "affected_packages b' =
       (case affected_packages ?b of [] \<Rightarrow> empty_AffectedPackage | ap # rest \<Rightarrow> ap)
         \<lparr>package := v_package (example_vulnerability ?ps),
          versions := affects_versions (affects (example_vulnerability ?ps)),
          ranges := merged_ranges (affects_ranges (affects (example_vulnerability ?ps)))\<rparr> #
       tl (affected_packages ?b)"
    by blast
  then show ?thesis
    using m by (simp add: example_vulnerability_def example_bug_def)
qed

section \<open>Derived fields and validation\<close>

lemma last_fixed_snoc:
  "last_fixed (evs @ [e]) = (if ev_type e = ''fixed'' then Some (ev_value e) else last_fixed evs)"
  by (simp add: last_fixed_def)

lemma fold_derive_event:
  "fold derive_event evs (b, fv) =
     (b\<lparr>is_fixed := is_fixed b \<or> (\<exists>e \<in> set evs. ev_type e = ''fixed'')\<rparr>,
      case last_fixed evs of None \<Rightarrow> fv | Some v \<Rightarrow> Some v)"
proof (induction evs rule: rev_induct)
  case Nil
  then show ?case by (simp add: last_fixed_def)
next
  case (snoc e evs)
  then show ?case
    by (auto simp: derive_event_def last_fixed_snoc)
qed

lemma derive_range_eq:
  "derive_range en r b =
     b\<lparr>is_fixed := is_fixed b \<or> has_fixed r,
       semver_fixed_indexes :=
         semver_fixed_indexes b @ (if r_type r = ''SEMVER'' then [range_fixed_index en r] else []),
       has_affected := has_affected b \<or> r_type r \<in> set [''SEMVER'', ''ECOSYSTEM'']\<rparr>"
  by (auto simp: derive_range_def fold_derive_event has_fixed_def range_fixed_index_def
      split: option.splits)

lemma derive_range_fields:
  "without_derived (derive_range en r b) = without_derived b"
  "affected_fuzzy (derive_range en r b) = affected_fuzzy b"
  "is_fixed (derive_range en r b) = (is_fixed b \<or> has_fixed r)"
  "semver_fixed_indexes (derive_range en r b) =
     semver_fixed_indexes b @ (if r_type r = ''SEMVER'' then [range_fixed_index en r] else [])"
  "has_affected (derive_range en r b) =
     (has_affected b \<or> r_type r \<in> set [''SEMVER'', ''ECOSYSTEM''])"
  by (simp_all add: derive_range_eq without_derived_def)

lemma fold_derive_range_frame0:
  "without_derived (fold (derive_range en) rs b) = without_derived b"
  by (induction rs arbitrary: b) (simp_all add: derive_range_fields)

lemma fold_derive_range_fuzzy:
  "affected_fuzzy (fold (derive_range en) rs b) = affected_fuzzy b"
  by (induction rs arbitrary: b) (simp_all add: derive_range_fields)

lemma fold_derive_range_is_fixed:
  "is_fixed (fold (derive_range en) rs b) = (is_fixed b \<or> (\<exists>r \<in> set rs. has_fixed r))"
  by (induction rs arbitrary: b) (simp_all add: derive_range_fields)

lemma fold_derive_range_semver:
  "semver_fixed_indexes (fold (derive_range en) rs b) =
     semver_fixed_indexes b @ map (range_fixed_index en) [r \<leftarrow> rs. r_type r = ''SEMVER'']"
  by (induction rs arbitrary: b) (simp_all add: derive_range_fields)

lemma fold_derive_range_has_affected:
  "has_affected (fold (derive_range en) rs b) =
     (has_affected b \<or> (\<exists>r \<in> set rs. r_type r \<in> set [''SEMVER'', ''ECOSYSTEM'']))"
  by (induction rs arbitrary: b) (simp_all add: derive_range_fields disj_assoc)

lemma derive_package_frame0:
  "without_derived (derive_package en ap b) = without_derived b"
  by (simp add: derive_package_def fold_derive_range_frame0) (simp add: without_derived_def)

lemma derive_package_fields:
  "affected_fuzzy (derive_package en ap b) = affected_fuzzy b @ normalize_tags en (versions ap)"
  "is_fixed (derive_package en ap b) = (is_fixed b \<or> (\<exists>r \<in> set (ranges ap). has_fixed r))"
  "semver_fixed_indexes (derive_package en ap b) =
     semver_fixed_indexes b @
       map (range_fixed_index en) [r \<leftarrow> ranges ap. r_type r = ''SEMVER'']"
  "has_affected (derive_package en ap b) =
     (has_affected b \<or> versions ap \<noteq> [] \<or>
        (\<exists>r \<in> set (ranges ap). r_type r \<in> set [''SEMVER'', ''ECOSYSTEM'']))"
  by (simp_all add: derive_package_def fold_derive_range_fuzzy
      fold_derive_range_is_fixed fold_derive_range_semver fold_derive_range_has_affected
      disj_assoc)

lemma fold_derive_package_frame0:
  "without_derived (fold (derive_package en) aps b) = without_derived b"
  by (induction aps arbitrary: b) (simp_all add: derive_package_frame0)

lemma fold_derive_package_fuzzy:
  "affected_fuzzy (fold (derive_package en) aps b) =
     affected_fuzzy b @ concat (map (\<lambda>ap. normalize_tags en (versions ap)) aps)"
  by (induction aps arbitrary: b) (simp_all add: derive_package_fields)

lemma fold_derive_package_is_fixed:
  "is_fixed (fold (derive_package en) aps b) =
     (is_fixed b \<or> (\<exists>r \<in> set (concat (map ranges aps)). has_fixed r))"
proof (induction aps arbitrary: b)
  case Nil
  then show ?case by simp
next
  case (Cons ap aps)
  show ?case
    by (simp add: Cons.IH derive_package_fields) blast
qed

lemma fold_derive_package_semver:
  "semver_fixed_indexes (fold (derive_package en) aps b) =
     semver_fixed_indexes b @
       map (range_fixed_index en) [r \<leftarrow> concat (map ranges aps). r_type r = ''SEMVER'']"
  by (induction aps arbitrary: b) (simp_all add: derive_package_fields)

lemma fold_derive_package_has_affected:
  "has_affected (fold (derive_package en) aps b) =
     (has_affected b \<or> (\<exists>ap \<in> set aps. versions ap \<noteq> []) \<or>
        (\<exists>r \<in> set (concat (map ranges aps)). r_type r \<in> set [''SEMVER'', ''ECOSYSTEM'']))"
proof (induction aps arbitrary: b)
  case Nil
  then show ?case by simp
next
  case (Cons ap aps)
  show ?case
    by (simp add: Cons.IH derive_package_fields) blast
qed

lemma fold_derive_package_frame:
  "affected_packages (fold (derive_package en) aps b) = affected_packages b"
  "db_id (fold (derive_package en) aps b) = db_id b"
  "key (fold (derive_package en) aps b) = key b"
  "source (fold (derive_package en) aps b) = source b"
  "source_id (fold (derive_package en) aps b) = source_id b"
  "last_modified (fold (derive_package en) aps b) = last_modified b"
  "search_indices (fold (derive_package en) aps b) = search_indices b"
  "severity (fold (derive_package en) aps b) = severity b"
proof -
  let ?x = "fold (derive_package en) aps b"
  have r: "without_derived ?x = without_derived b" by (rule fold_derive_package_frame0)
  have "affected_packages (without_derived ?x) = affected_packages (without_derived b)" by (simp only: r)
  then show "affected_packages ?x = affected_packages b" by (simp add: without_derived_def)
  have "db_id (without_derived ?x) = db_id (without_derived b)" by (simp only: r)
  then show "db_id ?x = db_id b" by (simp add: without_derived_def)
  have "key (without_derived ?x) = key (without_derived b)" by (simp only: r)
  then show "key ?x = key b" by (simp add: without_derived_def)
  have "source (without_derived ?x) = source (without_derived b)" by (simp only: r)
  then show "source ?x = source b" by (simp add: without_derived_def)
  have "source_id (without_derived ?x) = source_id (without_derived b)" by (simp only: r)
  then show "source_id ?x = source_id b" by (simp add: without_derived_def)
  have "last_modified (without_derived ?x) = last_modified (without_derived b)" by (simp only: r)
  then show "last_modified ?x = last_modified b" by (simp add: without_derived_def)
  have "search_indices (without_derived ?x) = search_indices (without_derived b)" by (simp only: r)
  then show "search_indices ?x = search_indices b" by (simp add: without_derived_def)
  have "severity (without_derived ?x) = severity (without_derived b)" by (simp only: r)
  then show "severity ?x = severity b" by (simp add: without_derived_def)
qed

lemma derive_fields_frame:
  "affected_packages (derive_fields en b i) = affected_packages b"
  "db_id (derive_fields en b i) = db_id b"
  "key (derive_fields en b i) = key b"
  "source_id (derive_fields en b i) = source_id b"
  "severity (derive_fields en b i) = severity b"
  "source (derive_fields en b i) =
     (if truthy (source_id b)
      then Some (fst (parse_source_id en (case source_id b of None \<Rightarrow> [] | Some s \<Rightarrow> s)))
      else source b)"
  "last_modified (derive_fields en b i) =
     (case last_modified b of None \<Rightarrow> Some (utcnow en) | Some t \<Rightarrow> Some t)"
  "search_indices (derive_fields en b i) =
     sorted_list_of_set (index_set i (affected_packages b))"
  by (simp_all add: derive_fields_def Let_def split_beta index_set_def
      fold_derive_package_frame split: option.splits)

lemma derive_fields_derived:
  "affected_fuzzy (derive_fields en b i) =
     concat (map (\<lambda>ap. normalize_tags en (versions ap)) (affected_packages b))"
  "is_fixed (derive_fields en b i) = (\<exists>r \<in> set (all_ranges b). has_fixed r)"
  "semver_fixed_indexes (derive_fields en b i) =
     map (range_fixed_index en) [r \<leftarrow> all_ranges b. r_type r = ''SEMVER'']"
  "has_affected (derive_fields en b i) =
     ((\<exists>ap \<in> set (affected_packages b). versions ap \<noteq> []) \<or>
      (\<exists>r \<in> set (all_ranges b). r_type r \<in> set [''SEMVER'', ''ECOSYSTEM'']))"
  by (simp_all add: derive_fields_def Let_def split_beta all_ranges_def
      fold_derive_package_fuzzy fold_derive_package_is_fixed fold_derive_package_semver
      fold_derive_package_has_affected)

lemma pre_put_hook_Inr:
  assumes "pre_put_hook en b = Inr b1"
  shows "\<exists>i k. bug_id b = Inr i \<and> b1 = (derive_fields en b i)\<lparr>key := Some k\<rparr> \<and>
           truthy (db_id b) \<and> truthy (source b1)"
proof -
  from assms obtain i where i: "bug_id b = Inr i"
    by (auto simp: pre_put_hook_def split: sum.splits)
  let ?b6 = "derive_fields en b i"
  from assms i have t: "truthy (source ?b6)" "truthy (db_id ?b6)"
    by (auto simp: pre_put_hook_def Let_def split: if_splits)
  have "\<exists>k. b1 = ?b6\<lparr>key := Some k\<rparr>"
  proof (cases "key ?b6")
    case None
    with assms i t show ?thesis
      by (auto simp: pre_put_hook_def Let_def split: option.splits)
  next
    case (Some a)
    with assms i t have "b1 = ?b6"
      by (simp add: pre_put_hook_def Let_def)
    moreover have "?b6 = ?b6\<lparr>key := Some a\<rparr>"
      using Some by (metis Bug.surjective Bug.update_convs(2))
    ultimately show ?thesis by metis
  qed
  with i t show ?thesis by (auto simp: derive_fields_frame)
qed

lemma bug_id_db_id: "db_id b = Some d \<Longrightarrow> d \<noteq> [] \<Longrightarrow> bug_id b = Inr d"
  by (simp add: bug_id_def)

lemma pre_put_hook_succeeds:
  assumes "db_id b = Some d" and "d \<noteq> []"
    and "truthy (source (derive_fields en b d))"
    and "key b \<noteq> None \<or>
         get_source_repository en
           (case source (derive_fields en b d) of None \<Rightarrow> [] | Some s \<Rightarrow> s) \<noteq> None"
  shows "\<exists>k. pre_put_hook en b = Inr ((derive_fields en b d)\<lparr>key := Some k\<rparr>)"
proof -
  let ?b6 = "derive_fields en b d"
  have i: "bug_id b = Inr d" using assms(1,2) by (rule bug_id_db_id)
  have t: "truthy (db_id ?b6)" using assms(1,2) by (simp add: derive_fields_frame)
  show ?thesis
  proof (cases "key b")
    case None
    with assms(4) obtain sr where
      "get_source_repository en (case source ?b6 of None \<Rightarrow> [] | Some s \<Rightarrow> s) = Some sr"
      by auto
    with i t assms(3) None show ?thesis
      by (simp add: pre_put_hook_def Let_def derive_fields_frame(3)) blast
  next
    case (Some a)
    then have "pre_put_hook en b = Inr ?b6"
      using i t assms(3) by (simp add: pre_put_hook_def Let_def derive_fields_frame(3))
    moreover have "?b6 = ?b6\<lparr>key := Some a\<rparr>"
      using Some derive_fields_frame(3)[of en b d]
      by (metis Bug.surjective Bug.update_convs(2))
    ultimately show ?thesis by metis
  qed
qed

text \<open>
  A \<open>SEMVER\<close> range whose last fixed event has the empty value: the hook stores the
  sentinel version, not the value of that event.
\<close>

theorem semver_fixed_indexes_counterexample:
  "map_sum id semver_fixed_indexes (pre_put_hook example_env empty_fixed_bug) =
     Inr [''999999.999999.999999''] \<and>
   claimed_semver_fixed_indexes example_env empty_fixed_bug = [[]] \<and>
   map_sum id semver_fixed_indexes (pre_put_hook example_env empty_fixed_bug) \<noteq>
     Inr (claimed_semver_fixed_indexes example_env empty_fixed_bug)"
proof -
  have d: "db_id empty_fixed_bug = Some ''GHSA-1234''" "''GHSA-1234'' \<noteq> []"
    by (simp_all add: empty_fixed_bug_def example_bug_def)
  have s: "truthy (source (derive_fields example_env empty_fixed_bug ''GHSA-1234''))"
    by (simp add: derive_fields_frame empty_fixed_bug_def example_bug_def)
  have g: "key empty_fixed_bug \<noteq> None \<or>
         get_source_repository example_env
           (case source (derive_fields example_env empty_fixed_bug ''GHSA-1234'') of
              None \<Rightarrow> [] | Some s \<Rightarrow> s) \<noteq> None"
    by (simp add: example_env_def)
  from pre_put_hook_succeeds[OF d s g] obtain k where
    "pre_put_hook example_env empty_fixed_bug =
       Inr ((derive_fields example_env empty_fixed_bug ''GHSA-1234'')\<lparr>key := Some k\<rparr>)"
    by blast
  then have a: "map_sum id semver_fixed_indexes (pre_put_hook example_env empty_fixed_bug) =
     Inr [''999999.999999.999999'']"
    by (simp add: derive_fields_derived all_ranges_def empty_fixed_bug_def example_bug_def
        range_fixed_index_def last_fixed_def NOT_FIXED_SEMVER_def example_env_def)
  have c: "claimed_semver_fixed_indexes example_env empty_fixed_bug = [[]]"
    by (simp add: claimed_semver_fixed_indexes_def all_ranges_def empty_fixed_bug_def
        example_bug_def last_fixed_def example_env_def)
  from a c show ?thesis by simp
qed

text \<open>
  C5 (amended). After the derivation, \<open>is_fixed\<close> holds iff some range of some affected
  package has a fixed event; \<open>has_affected\<close> holds iff some affected package has explicit
  versions or some range has type \<open>SEMVER\<close> or \<open>ECOSYSTEM\<close>; \<open>semver_fixed_indexes\<close>
  has one entry per \<open>SEMVER\<close> range, in the order of the packages and of their ranges:
  the normalized value of the last fixed event of the range when that value is not
  empty, and the normalized sentinel version \<open>999999.999999.999999\<close> when the range has no
  fixed event or the value is empty. This holds of the derivation as such and of the
  record that a successful hook returns.
\<close>

theorem derived_flags_and_indexes:
  "is_fixed (derive_fields en b i) =
     (\<exists>r \<in> set (all_ranges b). \<exists>e \<in> set (events r). ev_type e = ''fixed'') \<and>
   has_affected (derive_fields en b i) =
     ((\<exists>ap \<in> set (affected_packages b). versions ap \<noteq> []) \<or>
      (\<exists>r \<in> set (all_ranges b). r_type r = ''SEMVER'' \<or> r_type r = ''ECOSYSTEM'')) \<and>
   semver_fixed_indexes (derive_fields en b i) =
     map (range_fixed_index en) [r \<leftarrow> all_ranges b. r_type r = ''SEMVER''] \<and>
   (pre_put_hook en b = Inr b1 \<longrightarrow>
      is_fixed b1 =
        (\<exists>r \<in> set (all_ranges b). \<exists>e \<in> set (events r). ev_type e = ''fixed'') \<and>
      has_affected b1 =
        ((\<exists>ap \<in> set (affected_packages b). versions ap \<noteq> []) \<or>
         (\<exists>r \<in> set (all_ranges b). r_type r = ''SEMVER'' \<or> r_type r = ''ECOSYSTEM'')) \<and>
      semver_fixed_indexes b1 =
        map (range_fixed_index en) [r \<leftarrow> all_ranges b. r_type r = ''SEMVER''])"
proof -
  have f: "is_fixed (derive_fields en b j) =
     (\<exists>r \<in> set (all_ranges b). \<exists>e \<in> set (events r). ev_type e = ''fixed'')" for j
    by (simp add: derive_fields_derived has_fixed_def)
  have h: "has_affected (derive_fields en b j) =
     ((\<exists>ap \<in> set (affected_packages b). versions ap \<noteq> []) \<or>
      (\<exists>r \<in> set (all_ranges b). r_type r = ''SEMVER'' \<or> r_type r = ''ECOSYSTEM''))" for j
    by (simp add: derive_fields_derived)
  have x: "semver_fixed_indexes (derive_fields en b j) =
     map (range_fixed_index en) [r \<leftarrow> all_ranges b. r_type r = ''SEMVER'']" for j
    by (simp add: derive_fields_derived)
  have "pre_put_hook en b = Inr b1 \<longrightarrow>
      is_fixed b1 =
        (\<exists>r \<in> set (all_ranges b). \<exists>e \<in> set (events r). ev_type e = ''fixed'') \<and>
      has_affected b1 =
        ((\<exists>ap \<in> set (affected_packages b). versions ap \<noteq> []) \<or>
         (\<exists>r \<in> set (all_ranges b). r_type r = ''SEMVER'' \<or> r_type r = ''ECOSYSTEM'')) \<and>
      semver_fixed_indexes b1 =
        map (range_fixed_index en) [r \<leftarrow> all_ranges b. r_type r = ''SEMVER'']"
  proof
    assume "pre_put_hook en b = Inr b1"
    from pre_put_hook_Inr[OF this] obtain j k where
      b1: "b1 = (derive_fields en b j)\<lparr>key := Some k\<rparr>" by blast
    show "is_fixed b1 =
        (\<exists>r \<in> set (all_ranges b). \<exists>e \<in> set (events r). ev_type e = ''fixed'') \<and>
      has_affected b1 =
        ((\<exists>ap \<in> set (affected_packages b). versions ap \<noteq> []) \<or>
         (\<exists>r \<in> set (all_ranges b). r_type r = ''SEMVER'' \<or> r_type r = ''ECOSYSTEM'')) \<and>
      semver_fixed_indexes b1 =
        map (range_fixed_index en) [r \<leftarrow> all_ranges b. r_type r = ''SEMVER'']"
      unfolding b1 using f[of j] h[of j] x[of j] by simp
  qed
  with f[of i] h[of i] x[of i] show ?thesis by blast
qed

theorem derived_flags_and_indexes_witness:
  "map_sum id (\<lambda>b. (is_fixed b, has_affected b, semver_fixed_indexes b))
     (pre_put_hook example_env
        (example_bug\<lparr>affected_packages :=
           [\<lparr>package = \<lparr>ecosystem = ''npm'', name = ''left-pad'', purl = []\<rparr>,
             ranges = [\<lparr>r_type = ''SEMVER'', repo_url = None,
                        events = [\<lparr>ev_type = ''introduced'', ev_value = ''1.0.0''\<rparr>]\<rparr>],
             versions = []\<rparr>]\<rparr>)) =
   Inr (False, True, [''999999.999999.999999''])"
proof -
  let ?b = "example_bug\<lparr>affected_packages :=
           [\<lparr>package = \<lparr>ecosystem = ''npm'', name = ''left-pad'', purl = []\<rparr>,
             ranges = [\<lparr>r_type = ''SEMVER'', repo_url = None,
                        events = [\<lparr>ev_type = ''introduced'', ev_value = ''1.0.0''\<rparr>]\<rparr>],
             versions = []\<rparr>]\<rparr>"
  have d: "db_id ?b = Some ''GHSA-1234''" "''GHSA-1234'' \<noteq> []"
    by (simp_all add: example_bug_def)
  have s: "truthy (source (derive_fields example_env ?b ''GHSA-1234''))"
    by (simp add: derive_fields_frame example_bug_def)
  have g: "key ?b \<noteq> None \<or>
         get_source_repository example_env
           (case source (derive_fields example_env ?b ''GHSA-1234'') of
              None \<Rightarrow> [] | Some s \<Rightarrow> s) \<noteq> None"
    by (simp add: example_env_def)
  from pre_put_hook_succeeds[OF d s g] obtain k where
    r: "pre_put_hook example_env ?b =
       Inr ((derive_fields example_env ?b ''GHSA-1234'')\<lparr>key := Some k\<rparr>)"
    by blast
  let ?b1 = "(derive_fields example_env ?b ''GHSA-1234'')\<lparr>key := Some k\<rparr>"
  from derived_flags_and_indexes[of example_env ?b "''GHSA-1234''" ?b1] r
  have "is_fixed ?b1 =
          (\<exists>r \<in> set (all_ranges ?b). \<exists>e \<in> set (events r). ev_type e = ''fixed'')"
    and "has_affected ?b1 =
          ((\<exists>ap \<in> set (affected_packages ?b). versions ap \<noteq> []) \<or>
           (\<exists>r \<in> set (all_ranges ?b). r_type r = ''SEMVER'' \<or> r_type r = ''ECOSYSTEM''))"
    and "semver_fixed_indexes ?b1 =
          map (range_fixed_index example_env) [r \<leftarrow> all_ranges ?b. r_type r = ''SEMVER'']"
    by blast+
  then have "is_fixed ?b1 = False" and "has_affected ?b1 = True"
    and "semver_fixed_indexes ?b1 = [''999999.999999.999999'']"
    by (simp_all add: all_ranges_def range_fixed_index_def last_fixed_def
        NOT_FIXED_SEMVER_def example_env_def)
  with r show ?thesis by simp
qed

lemma finite_fold_tokens:
  "finite s \<Longrightarrow> finite (fold (\<lambda>p s. s \<union> set (tokenize p)) ps s)"
  by (induction ps arbitrary: s) simp_all

lemma finite_index_set: "finite (index_set i aps)"
  by (simp add: index_set_def finite_fold_tokens)

lemma range_fixed_index_utcnow:
  "range_fixed_index (en\<lparr>utcnow := t\<rparr>) = range_fixed_index en"
  by (rule ext) (simp add: range_fixed_index_def)

text \<open>
  C6. When the hook has succeeded on a record, it succeeds again on the record it
  returned (at any later time \<open>t'\<close>) and yields the same \<open>search_indices\<close>,
  \<open>affected_fuzzy\<close>, \<open>semver_fixed_indexes\<close>, \<open>has_affected\<close>, \<open>is_fixed\<close> and
  \<open>last_modified\<close>. \<open>search_indices\<close> is sorted and without duplicates.
  \<open>last_modified\<close> is the current time only when it was not set before.
\<close>

theorem pre_put_hook_idempotent:
  assumes "pre_put_hook en b = Inr b1"
  shows "\<exists>b2. pre_put_hook (en\<lparr>utcnow := t'\<rparr>) b1 = Inr b2 \<and>
           search_indices b2 = search_indices b1 \<and>
           affected_fuzzy b2 = affected_fuzzy b1 \<and>
           semver_fixed_indexes b2 = semver_fixed_indexes b1 \<and>
           has_affected b2 = has_affected b1 \<and>
           is_fixed b2 = is_fixed b1 \<and>
           last_modified b2 = last_modified b1 \<and>
           sorted (search_indices b1) \<and> distinct (search_indices b1) \<and>
           last_modified b1 =
             (case last_modified b of None \<Rightarrow> Some (utcnow en) | Some t \<Rightarrow> Some t)"
proof -
  let ?en' = "en\<lparr>utcnow := t'\<rparr>"
  from pre_put_hook_Inr[OF assms] obtain i k where
    i: "bug_id b = Inr i" and b1: "b1 = (derive_fields en b i)\<lparr>key := Some k\<rparr>"
    and td: "truthy (db_id b)" and ts: "truthy (source b1)"
    by blast
  from td obtain d where d: "db_id b = Some d" "d \<noteq> []"
    by (cases "db_id b") auto
  with i have id: "i = d" by (simp add: bug_id_def)
  have aps: "affected_packages b1 = affected_packages b"
    by (simp add: b1 derive_fields_frame)
  have ar: "all_ranges b1 = all_ranges b"
    by (simp add: all_ranges_def aps)
  have d1: "db_id b1 = Some d" by (simp add: b1 derive_fields_frame d)
  have k1: "key b1 \<noteq> None" by (simp add: b1)
  have si1: "source_id b1 = source_id b" by (simp add: b1 derive_fields_frame)
  have s1: "source b1 =
     (if truthy (source_id b)
      then Some (fst (parse_source_id en (case source_id b of None \<Rightarrow> [] | Some s \<Rightarrow> s)))
      else source b)"
    by (simp add: b1 derive_fields_frame)
  have lm1: "last_modified b1 =
     (case last_modified b of None \<Rightarrow> Some (utcnow en) | Some t \<Rightarrow> Some t)"
    by (simp add: b1 derive_fields_frame)
  have src: "source (derive_fields ?en' b1 d) = source b1"
    by (simp add: derive_fields_frame si1 s1)
  from pre_put_hook_succeeds[of b1 d ?en', OF d1 d(2)] ts src k1
  obtain k' where r: "pre_put_hook ?en' b1 = Inr ((derive_fields ?en' b1 d)\<lparr>key := Some k'\<rparr>)"
    by auto
  let ?b2 = "(derive_fields ?en' b1 d)\<lparr>key := Some k'\<rparr>"
  have "search_indices ?b2 = search_indices b1"
    by (simp add: derive_fields_frame aps) (simp add: b1 derive_fields_frame id)
  moreover have "affected_fuzzy ?b2 = affected_fuzzy b1"
    by (simp add: derive_fields_derived aps) (simp add: b1 derive_fields_derived)
  moreover have "semver_fixed_indexes ?b2 = semver_fixed_indexes b1"
    by (simp add: derive_fields_derived ar range_fixed_index_utcnow)
       (simp add: b1 derive_fields_derived)
  moreover have "has_affected ?b2 = has_affected b1"
    by (simp add: derive_fields_derived ar aps) (simp add: b1 derive_fields_derived)
  moreover have "is_fixed ?b2 = is_fixed b1"
    by (simp add: derive_fields_derived ar) (simp add: b1 derive_fields_derived)
  moreover have "last_modified ?b2 = last_modified b1"
    by (simp add: derive_fields_frame lm1 split: option.splits)
  moreover have "sorted (search_indices b1)" "distinct (search_indices b1)"
    by (simp_all add: b1 derive_fields_frame)
  ultimately show ?thesis using r lm1 by blast
qed

theorem pre_put_hook_idempotent_witness:
  "\<exists>b1 b2.
     pre_put_hook example_env empty_fixed_bug = Inr b1 \<and>
     pre_put_hook (example_env\<lparr>utcnow := 9\<rparr>) b1 = Inr b2 \<and>
     search_indices b2 = search_indices b1 \<and>
     affected_fuzzy b2 = affected_fuzzy b1 \<and>
     semver_fixed_indexes b2 = semver_fixed_indexes b1 \<and>
     has_affected b2 = has_affected b1 \<and>
     is_fixed b2 = is_fixed b1 \<and>
     last_modified b2 = Some 7 \<and> last_modified b1 = Some 7 \<and>
     sorted (search_indices b1) \<and> distinct (search_indices b1)"
proof -
  have d: "db_id empty_fixed_bug = Some ''GHSA-1234''" "''GHSA-1234'' \<noteq> []"
    by (simp_all add: empty_fixed_bug_def example_bug_def)
  have s: "truthy (source (derive_fields example_env empty_fixed_bug ''GHSA-1234''))"
    by (simp add: derive_fields_frame empty_fixed_bug_def example_bug_def)
  have g: "key empty_fixed_bug \<noteq> None \<or>
         get_source_repository example_env
           (case source (derive_fields example_env empty_fixed_bug ''GHSA-1234'') of
              None \<Rightarrow> [] | Some s \<Rightarrow> s) \<noteq> None"
    by (simp add: example_env_def)
  from pre_put_hook_succeeds[OF d s g] obtain b1 where
    r: "pre_put_hook example_env empty_fixed_bug = Inr b1"
    by blast
  have lm: "last_modified empty_fixed_bug = None"
    by (simp add: empty_fixed_bug_def example_bug_def)
  from pre_put_hook_idempotent[OF r, of 9] obtain b2 where
    "pre_put_hook (example_env\<lparr>utcnow := 9\<rparr>) b1 = Inr b2"
    "search_indices b2 = search_indices b1"
    "affected_fuzzy b2 = affected_fuzzy b1"
    "semver_fixed_indexes b2 = semver_fixed_indexes b1"
    "has_affected b2 = has_affected b1"
    "is_fixed b2 = is_fixed b1"
    "last_modified b2 = last_modified b1"
    "sorted (search_indices b1)" "distinct (search_indices b1)"
    "last_modified b1 =
       (case last_modified empty_fixed_bug of None \<Rightarrow> Some (utcnow example_env)
        | Some t \<Rightarrow> Some t)"
    by blast
  moreover from this lm have "last_modified b1 = Some 7"
    by (simp add: example_env_def)
  ultimately show ?thesis using r by auto
qed















section \<open>Round trip through the legacy format\<close>

lemma pair_events_fold:
  assumes "introduced fresh = []" and "well_paired p"
    and "pb_type p = pb_type fresh" and "repo p = repo fresh" and "fixed fresh = []"
  shows "fold (pair_event rt fresh) (pair_events p) (fresh, out) =
           (if fixed p \<noteq> [] then (fresh, out @ [p]) else (p, out))"
proof -
  let ?v = "if introduced p = [] then ''0'' else introduced p"
  have v: "(if ?v = ''0'' then [] else ?v) = introduced p"
    using assms(2) by (simp add: well_paired_def)
  have 1: "pair_event rt fresh \<lparr>ev_type = ''introduced'', ev_value = ?v\<rparr> (fresh, out) =
           (fresh\<lparr>introduced := introduced p\<rparr>, out)"
    using assms(1,2)
    by (cases "introduced p = []") (simp_all add: pair_event_introduced well_paired_def)
  have eq: "fresh\<lparr>introduced := introduced p, fixed := fixed p\<rparr> = p"
    using assms(3,4) by simp
  show ?thesis
  proof (cases "fixed p = []")
    case True
    then have "fresh\<lparr>introduced := introduced p\<rparr> = p"
      using assms(3,4,5) by simp
    with True 1 show ?thesis by (simp add: pair_events_def)
  next
    case False
    then show ?thesis
      using 1 eq by (simp add: pair_events_def pair_event_fixed)
  qed
qed

lemma pair_events_fold_open:
  assumes "introduced fresh = []" and "well_paired p"
    and "pb_type p = pb_type fresh" and "repo p = repo fresh" and "fixed fresh = []"
    and "introduced q \<noteq> []"
  shows "fold (pair_event ''GIT'' fresh) (pair_events p) (q, out) =
           (if fixed p \<noteq> [] then (fresh, out @ [q, p]) else (p, out @ [q]))"
proof -
  let ?v = "if introduced p = [] then ''0'' else introduced p"
  let ?e = "\<lparr>ev_type = ''introduced'', ev_value = ?v\<rparr>"
  have v: "(if ?v = ''0'' then [] else ?v) = introduced p"
    using assms(2) by (simp add: well_paired_def)
  have 1: "pair_event ''GIT'' fresh ?e (q, out) = pair_event ''GIT'' fresh ?e (fresh, out @ [q])"
    using assms(1,2,6)
    by (cases "introduced p = []") (simp_all add: pair_event_introduced well_paired_def)
  have "fold (pair_event ''GIT'' fresh) (pair_events p) (q, out) =
        fold (pair_event ''GIT'' fresh) (pair_events p) (fresh, out @ [q])"
    using 1 by (simp add: pair_events_def)
  then show ?thesis
    using pair_events_fold[OF assms(1-5), of "''GIT''" "out @ [q]"] by simp
qed

lemma replay:
  assumes f: "introduced fresh = []" "fixed fresh = []"
  shows "\<forall>p \<in> set ss. pb_type p = pb_type fresh \<and> repo p = repo fresh \<and> well_paired p \<Longrightarrow>
         rt \<noteq> ''GIT'' \<longrightarrow> (\<forall>p \<in> set (butlast ss). fixed p \<noteq> []) \<Longrightarrow>
         fold (pair_event rt fresh) (concat (map pair_events ss)) (fresh, out) =
           replay_state fresh out ss"
proof (induction ss rule: rev_induct)
  case Nil
  then show ?case by (simp add: replay_state_def)
next
  case (snoc p ss)
  from snoc.prems(1) have wf: "\<forall>p \<in> set ss. pb_type p = pb_type fresh \<and> repo p = repo fresh \<and> well_paired p"
    and p: "pb_type p = pb_type fresh" "repo p = repo fresh" "well_paired p"
    by auto
  from snoc.prems(2) have ng: "rt \<noteq> ''GIT'' \<longrightarrow> (\<forall>p \<in> set ss. fixed p \<noteq> [])"
    by simp
  then have "rt \<noteq> ''GIT'' \<longrightarrow> (\<forall>p \<in> set (butlast ss). fixed p \<noteq> [])"
    by (auto dest: in_set_butlastD)
  from snoc.IH[OF wf this]
  have ih: "fold (pair_event rt fresh) (concat (map pair_events ss)) (fresh, out) =
            replay_state fresh out ss" .
  have step: "fold (pair_event rt fresh) (concat (map pair_events (ss @ [p]))) (fresh, out) =
              fold (pair_event rt fresh) (pair_events p) (replay_state fresh out ss)"
    by (simp add: ih)
  show ?case
  proof (cases "ss = [] \<or> fixed (last ss) \<noteq> []")
    case True
    then have "replay_state fresh out ss = (fresh, out @ ss)"
      by (simp add: replay_state_def)
    then show ?thesis
      unfolding step
      using pair_events_fold[OF f(1) p(3) p(1) p(2) f(2), of rt "out @ ss"]
      by (simp add: replay_state_def)
  next
    case False
    then have ne: "ss \<noteq> []" and lf: "fixed (last ss) = []" by auto
    then have "last ss \<in> set ss" by simp
    with ng lf have git: "rt = ''GIT''" by auto
    from wf \<open>last ss \<in> set ss\<close> have "well_paired (last ss)" by blast
    with lf have li: "introduced (last ss) \<noteq> []" by (auto simp: well_paired_def)
    from False have rs: "replay_state fresh out ss = (last ss, out @ butlast ss)"
      by (simp add: replay_state_def)
    have "fold (pair_event rt fresh) (concat (map pair_events (ss @ [p]))) (fresh, out) =
          fold (pair_event ''GIT'' fresh) (pair_events p) (last ss, out @ butlast ss)"
      using step rs git by simp
    also have "\<dots> = (if fixed p \<noteq> [] then (fresh, (out @ butlast ss) @ [last ss, p])
                       else (p, (out @ butlast ss) @ [last ss]))"
      by (rule pair_events_fold_open[OF f(1) p(3) p(1) p(2) f(2) li])
    also have "\<dots> = replay_state fresh out (ss @ [p])"
      using ne by (simp add: replay_state_def)
    finally show ?thesis .
  qed
qed

lemma replay_emit:
  assumes "\<forall>p \<in> set ss. well_paired p" and "introduced fresh = []"
  shows "snd (replay_state fresh out ss) @
           (if introduced (fst (replay_state fresh out ss)) \<noteq> []
            then [fst (replay_state fresh out ss)] else []) = out @ ss"
proof (cases "ss = [] \<or> fixed (last ss) \<noteq> []")
  case True
  then show ?thesis using assms(2) by (auto simp: replay_state_def)
next
  case False
  then have ne: "ss \<noteq> []" and lf: "fixed (last ss) = []" by auto
  with assms(1) have "introduced (last ss) \<noteq> []"
    by (auto simp: well_paired_def)
  with False ne show ?thesis
    by (simp add: replay_state_def)
qed

lemma distinct_singleton_set: "distinct ys \<Longrightarrow> set ys = {k} \<Longrightarrow> ys = [k]"
proof (cases ys)
  case Nil
  assume "set ys = {k}"
  with Nil show ?thesis by simp
next
  case (Cons y ys')
  assume d: "distinct ys" and s: "set ys = {k}"
  from s Cons have y: "y = k" by auto
  from d s Cons y have "set ys' \<subseteq> {k}" "k \<notin> set ys'" by auto
  then have "ys' = []" by (cases ys') auto
  with y Cons show ?thesis by simp
qed

lemma first_seen_constant:
  assumes "xs \<noteq> []" and "\<forall>x \<in> set xs. x = k"
  shows "first_seen xs = [k]"
proof -
  from assms have "set xs = {k}" by (cases xs) auto
  then have "set (first_seen xs) = {k}" by simp
  with distinct_first_seen[of xs] show ?thesis by (rule distinct_singleton_set)
qed

lemma round_trip_eq:
  "round_trip sk eg b v =
     (case ranges_pairs sk eg (ecosystem (v_package v))
             (merged_ranges (affects_ranges (affects v))) [] of
        Inl err \<Rightarrow> Inl err
      | Inr (rs', out) \<Rightarrow>
          Inr \<lparr>affects_versions = affects_versions (affects v), affects_ranges = out\<rparr>)"
proof -
  from update_from_vulnerability_eq[of b v] obtain b' where
    u: "update_from_vulnerability b v = Inr b'"
    and a: "affected_packages b' =
       (case affected_packages b of [] \<Rightarrow> empty_AffectedPackage | ap # rest \<Rightarrow> ap)
         \<lparr>package := v_package v, versions := affects_versions (affects v),
          ranges := merged_ranges (affects_ranges (affects v))\<rparr> #
       tl (affected_packages b)"
    by blast
  show ?thesis
    by (simp add: round_trip_def u get_pre_0_8_affects_def a split: sum.splits)
qed

lemma nonzero_pair_events:
  assumes "introduced p \<noteq> ''0''" and "fixed p \<noteq> ''0''"
  shows "map ev_value (filter (\<lambda>e. \<not> is_zero e) (pair_events p)) = bounds p"
  using assms by (simp add: pair_events_def bounds_def is_zero_def)

lemma nonzero_events_bounds:
  assumes "\<forall>p \<in> set ss. introduced p \<noteq> ''0'' \<and> fixed p \<noteq> ''0''"
  shows "map ev_value (filter (\<lambda>e. \<not> is_zero e) (concat (map pair_events ss))) =
           concat (map bounds ss)"
  using assms by (induction ss) (simp_all add: nonzero_pair_events)

lemma zero_pair_events:
  "introduced p \<noteq> [] \<Longrightarrow> introduced p \<noteq> ''0'' \<Longrightarrow> fixed p \<noteq> ''0'' \<Longrightarrow>
   filter is_zero (pair_events p) = []"
  by (simp add: pair_events_def is_zero_def)

lemma zero_events_tail:
  assumes "\<forall>p \<in> set ss. introduced p \<noteq> [] \<and> introduced p \<noteq> ''0'' \<and> fixed p \<noteq> ''0''"
  shows "filter is_zero (concat (map pair_events ss)) = []"
  using assms by (induction ss) (simp_all add: zero_pair_events)

lemma chain_events_split:
  assumes "\<forall>p \<in> set ss. well_paired p \<and> fixed p \<noteq> ''0''"
    and "\<forall>p \<in> set (tl ss). introduced p \<noteq> []"
  shows "concat (map pair_events ss) =
           filter is_zero (concat (map pair_events ss)) @
           filter (\<lambda>e. \<not> is_zero e) (concat (map pair_events ss)) \<and>
         length (filter is_zero (concat (map pair_events ss))) \<le> 1"
proof (cases ss)
  case Nil
  then show ?thesis by simp
next
  case (Cons p ss')
  from assms Cons have t: "\<forall>q \<in> set ss'. introduced q \<noteq> [] \<and> introduced q \<noteq> ''0'' \<and> fixed q \<noteq> ''0''"
    by (auto simp: well_paired_def)
  then have z: "filter is_zero (concat (map pair_events ss')) = []"
    by (rule zero_events_tail)
  then have nz: "filter (\<lambda>e. \<not> is_zero e) (concat (map pair_events ss')) =
                 concat (map pair_events ss')"
    by (simp add: filter_empty_conv filter_id_conv)
  from assms(1) Cons have p: "well_paired p" "fixed p \<noteq> ''0''" by auto
  have "pair_events p = filter is_zero (pair_events p) @ filter (\<lambda>e. \<not> is_zero e) (pair_events p) \<and>
        length (filter is_zero (pair_events p)) \<le> 1"
    using p by (auto simp: pair_events_def is_zero_def well_paired_def)
  then show ?thesis
    using z nz Cons by simp
qed

lemma short_list_mset_eq:
  assumes "length zs \<le> 1" and "mset fs = mset zs"
  shows "fs = zs"
proof -
  from assms(2) have l: "length fs = length zs" by (rule mset_eq_length)
  show ?thesis
  proof (cases zs)
    case Nil
    with l show ?thesis by simp
  next
    case (Cons z zs')
    with assms(1) have zs: "zs = [z]" by simp
    with l obtain f where fs: "fs = [f]"
      by (cases fs) auto
    with zs assms(2) show ?thesis by simp
  qed
qed

lemma mset_concat_map_cong:
  assumes "mset ps = mset ss"
  shows "mset (concat (map f ps)) = mset (concat (map f ss))"
proof -
  have "mset (concat (map f xs)) = sum_mset (image_mset (\<lambda>x. mset (f x)) (mset xs))" for xs
    by (induction xs) simp_all
  then show ?thesis using assms by simp
qed

lemma semver_sorted_events:
  fixes sk :: "string \<Rightarrow> 'k::linorder"
  assumes ch: "semver_chain sk ss" and ms: "mset ps = mset ss"
  shows "sorted_events sk eg eco ''SEMVER'' (concat (map pair_events ps)) =
           Inr (concat (map pair_events ss),
                filter (\<lambda>e. \<not> is_zero e) (concat (map pair_events ps))) \<and>
         distinct (concat (map pair_events ps))"
proof -
  let ?E = "concat (map pair_events ps)"
  let ?S = "concat (map pair_events ss)"
  let ?Z = "filter is_zero ?S"
  let ?N = "filter (\<lambda>e. \<not> is_zero e) ?S"
  let ?key = "\<lambda>e. sk (ev_value e)"
  from ch have wf: "\<forall>p \<in> set ss. well_paired p \<and> fixed p \<noteq> ''0''"
    and tl: "\<forall>p \<in> set (tl ss). introduced p \<noteq> []"
    and st: "sorted_wrt (<) (map sk (concat (map bounds ss)))"
    by (simp_all add: semver_chain_def)
  from chain_events_split[OF wf tl] have split: "?S = ?Z @ ?N" and short: "length ?Z \<le> 1"
    by simp_all
  have "map ev_value ?N = concat (map bounds ss)"
    using wf by (intro nonzero_events_bounds) (auto simp: well_paired_def)
  then have "map ?key ?N = map sk (concat (map bounds ss))"
    by (metis (no_types, lifting) map_map comp_apply map_eq_conv)
  with st have "sorted_wrt (<) (map ?key ?N)" by simp
  then have sN: "sorted (map ?key ?N)" and dN: "distinct (map ?key ?N)"
    by (simp_all add: strict_sorted_iff)
  from dN have dN': "distinct ?N" and inj: "inj_on ?key (set ?N)"
    by (simp_all add: distinct_map)
  have dS: "distinct ?S"
  proof -
    have "distinct ?Z" using short by (cases ?Z) auto
    moreover have "set ?Z \<inter> set ?N = {}" by auto
    ultimately have "distinct (?Z @ ?N)" using dN' by simp
    with split show ?thesis by simp
  qed
  have mE: "mset ?E = mset ?S" using ms by (rule mset_concat_map_cong)
  then have dE: "distinct ?E" using dS by (metis mset_eq_imp_distinct_iff)
  from mE have mZ: "mset (filter is_zero ?E) = mset ?Z"
    and mN: "mset (filter (\<lambda>e. \<not> is_zero e) ?E) = mset ?N"
    by simp_all
  from short mZ have fZ: "filter is_zero ?E = ?Z" by (rule short_list_mset_eq)
  from mN have "set (filter (\<lambda>e. \<not> is_zero e) ?E) = set ?N" by (rule mset_eq_setD)
  with inj have "inj_on ?key (set (filter (\<lambda>e. \<not> is_zero e) ?E))" by simp
  with mN have srt: "sort_key ?key (filter (\<lambda>e. \<not> is_zero e) ?E) = ?N"
    using sN by (intro sort_key_inj_key_eq)
  have lz: "(case last_zero ?E of None \<Rightarrow> [] | Some z \<Rightarrow> [z]) = ?Z"
  proof (cases ?Z)
    case Nil
    then show ?thesis by (simp add: last_zero_def fZ)
  next
    case (Cons z zs)
    with short have "zs = []" by simp
    with Cons show ?thesis by (simp add: last_zero_def fZ)
  qed
  have "sorted_events sk eg eco ''SEMVER'' ?E =
          Inr ((case last_zero ?E of None \<Rightarrow> [] | Some z \<Rightarrow> [z]) @
                 sort_key ?key (filter (\<lambda>e. \<not> is_zero e) ?E),
               filter (\<lambda>e. \<not> is_zero e) ?E)"
    by (rule sorted_events_not_git[where hk = sk]) simp_all
  then show ?thesis
    using lz srt split dE by simp
qed

lemma range_pairs_git:
  assumes "git_input rp g"
  shows "range_pairs sk eg eco
           \<lparr>r_type = ''GIT'', repo_url = (if rp \<noteq> [] then Some rp else None),
            events = concat (map pair_events g)\<rparr> out =
         Inr (\<lparr>r_type = ''GIT'', repo_url = (if rp \<noteq> [] then Some rp else None),
               events = concat (map pair_events g)\<rparr>, out @ g)"
proof -
  let ?E = "concat (map pair_events g)"
  let ?r = "\<lparr>r_type = ''GIT'', repo_url = (if rp \<noteq> [] then Some rp else None), events = ?E\<rparr>"
  let ?fresh = "\<lparr>pb_type = GIT, repo = rp, introduced = [], fixed = []\<rparr>"
  from assms have wf: "\<forall>p \<in> set g. pb_type p = GIT \<and> repo p = rp \<and> well_paired p"
    by (simp add: git_input_def)
  have nr: "new_range ?r = Inr ?fresh"
    by (simp add: new_range_def Type_Value_def)
  have se: "sorted_events sk eg eco (r_type ?r) (events ?r) = Inr (?E, ?E)"
    by (simp add: sorted_events_def)
  have wf': "\<forall>p \<in> set g. pb_type p = pb_type ?fresh \<and> repo p = repo ?fresh \<and> well_paired p"
    using wf by simp
  have fo: "fold (pair_event (r_type ?r) ?fresh) ?E (?fresh, out) = replay_state ?fresh out g"
    using replay[of ?fresh g "''GIT''" out, OF _ _ wf'] by simp
  have em: "snd (replay_state ?fresh out g) @
                 (if introduced (fst (replay_state ?fresh out g)) \<noteq> []
                  then [fst (replay_state ?fresh out g)] else []) = out @ g"
    using wf by (intro replay_emit) simp_all
  show ?thesis
    using range_pairs_state[OF nr se fo em] by simp
qed

lemma range_pairs_semver:
  fixes sk :: "string \<Rightarrow> 'k::linorder"
  assumes ch: "semver_chain sk ss" and ms: "mset g = mset ss"
  shows "range_pairs sk eg eco
           \<lparr>r_type = ''SEMVER'', repo_url = None, events = concat (map pair_events g)\<rparr> out =
         Inr (\<lparr>r_type = ''SEMVER'', repo_url = None,
               events = filter (\<lambda>e. \<not> is_zero e) (concat (map pair_events g))\<rparr>, out @ ss)"
proof -
  let ?E = "concat (map pair_events g)"
  let ?S = "concat (map pair_events ss)"
  let ?r = "\<lparr>r_type = ''SEMVER'', repo_url = None, events = ?E\<rparr>"
  let ?fresh = "\<lparr>pb_type = SEMVER, repo = [], introduced = [], fixed = []\<rparr>"
  from ch have wf: "\<forall>p \<in> set ss. pb_type p = SEMVER \<and> repo p = [] \<and> well_paired p"
    and bl: "\<forall>p \<in> set (butlast ss). fixed p \<noteq> []"
    by (simp_all add: semver_chain_def)
  from semver_sorted_events[OF ch ms, of eg eco]
  have se: "sorted_events sk eg eco (r_type ?r) (events ?r) =
              Inr (?S, filter (\<lambda>e. \<not> is_zero e) ?E)"
    by simp
  have nr: "new_range ?r = Inr ?fresh"
    by (simp add: new_range_def Type_Value_def)
  have wf': "\<forall>p \<in> set ss. pb_type p = pb_type ?fresh \<and> repo p = repo ?fresh \<and> well_paired p"
    using wf by simp
  have fo: "fold (pair_event (r_type ?r) ?fresh) ?S (?fresh, out) = replay_state ?fresh out ss"
    using replay[of ?fresh ss "''SEMVER''" out, OF _ _ wf'] bl by simp
  have em: "snd (replay_state ?fresh out ss) @
                 (if introduced (fst (replay_state ?fresh out ss)) \<noteq> []
                  then [fst (replay_state ?fresh out ss)] else []) = out @ ss"
    using wf by (intro replay_emit) simp_all
  show ?thesis
    using range_pairs_state[OF nr se fo em] by simp
qed

lemma group_restored_events:
  fixes sk :: "string \<Rightarrow> 'k::linorder"
  assumes "group_restored sk k g out"
  shows "distinct (concat (map pair_events g))"
proof (cases "fst k = ''GIT''")
  case True
  with assms show ?thesis by (simp add: group_restored_def git_input_def)
next
  case False
  with assms have "semver_chain sk out" "mset g = mset out"
    by (simp_all add: group_restored_def)
  from semver_sorted_events[OF this] show ?thesis by simp
qed

lemma range_pairs_group:
  fixes sk :: "string \<Rightarrow> 'k::linorder"
  assumes "group_restored sk k g arr"
  shows "\<exists>r'. range_pairs sk eg eco
           \<lparr>r_type = fst k,
            repo_url = (if fst k = ''GIT'' \<and> snd k \<noteq> [] then Some (snd k) else None),
            events = first_seen (concat (map pair_events g))\<rparr> out = Inr (r', out @ arr)"
proof (cases "fst k = ''GIT''")
  case True
  with assms have g: "git_input (snd k) g" and a: "arr = g"
    by (simp_all add: group_restored_def)
  from g have "distinct (concat (map pair_events g))" by (simp add: git_input_def)
  then show ?thesis
    using range_pairs_git[OF g, of sk eg eco out] True a
    by (simp add: first_seen_distinct)
next
  case False
  with assms have k: "k = (''SEMVER'', [])" and ch: "semver_chain sk arr"
    and ms: "mset g = mset arr"
    by (simp_all add: group_restored_def)
  from group_restored_events[OF assms] show ?thesis
    using range_pairs_semver[OF ch ms, of eg eco out] k
    by (simp add: first_seen_distinct)
qed

lemma ranges_pairs_map:
  fixes sk :: "string \<Rightarrow> 'k::linorder"
  assumes "\<forall>k \<in> set ks. \<forall>out. \<exists>r'. range_pairs sk eg eco (R k) out = Inr (r', out @ arr k)"
  shows "\<exists>rs'. ranges_pairs sk eg eco (map R ks) out = Inr (rs', out @ concat (map arr ks))"
  using assms
proof (induction ks arbitrary: out)
  case Nil
  then show ?case by simp
next
  case (Cons k ks)
  from Cons.prems have "\<exists>r'. range_pairs sk eg eco (R k) out = Inr (r', out @ arr k)"
    by simp
  then obtain r' where r: "range_pairs sk eg eco (R k) out = Inr (r', out @ arr k)" ..
  from Cons.prems have "\<forall>k \<in> set ks. \<forall>out. \<exists>r'. range_pairs sk eg eco (R k) out = Inr (r', out @ arr k)"
    by simp
  from Cons.IH[OF this, of "out @ arr k"] obtain rs' where
    "ranges_pairs sk eg eco (map R ks) (out @ arr k) = Inr (rs', (out @ arr k) @ concat (map arr ks))"
    by blast
  with r show ?case by simp
qed

lemma mset_groups:
  assumes "distinct ks" and "range_key ` set ps \<subseteq> set ks"
  shows "(\<Sum>k\<leftarrow>ks. mset (group_of ps k)) = mset ps"
  using assms(2)
proof (induction ps)
  case Nil
  then show ?case by (simp add: group_of_def)
next
  case (Cons p ps)
  then have in_ks: "range_key p \<in> set ks" and sub: "range_key ` set ps \<subseteq> set ks"
    by auto
  have one: "(\<Sum>k\<leftarrow>ks. if range_key p = k then {#p#} else {#}) = {#p#}"
    using assms(1) in_ks
  proof (induction ks)
    case Nil
    then show ?case by simp
  next
    case (Cons a ks)
    show ?case
    proof (cases "range_key p = a")
      case True
      with Cons.prems have "range_key p \<notin> set ks" by auto
      then have "(\<Sum>k\<leftarrow>ks. if range_key p = k then {#p#} else {#}) = {#}"
        by (induction ks) auto
      with True show ?thesis by simp
    next
      case False
      with Cons show ?thesis by auto
    qed
  qed
  have "(\<Sum>k\<leftarrow>ks. mset (group_of (p # ps) k)) =
        (\<Sum>k\<leftarrow>ks. (if range_key p = k then {#p#} else {#}) + mset (group_of ps k))"
    by (intro arg_cong[where f = sum_list] map_cong refl) (simp add: group_of_def)
  also have "\<dots> = (\<Sum>k\<leftarrow>ks. if range_key p = k then {#p#} else {#}) +
                   (\<Sum>k\<leftarrow>ks. mset (group_of ps k))"
    by (simp add: sum_list_addf)
  also have "\<dots> = {#p#} + mset ps"
    using one Cons.IH[OF sub] by simp
  finally show ?case by simp
qed

lemma round_trip_groups:
  fixes sk :: "string \<Rightarrow> 'k::linorder"
  assumes "\<forall>k \<in> set (first_seen (map range_key ps)). group_restored sk k (group_of ps k) (arr k)"
  shows "round_trip sk eg b (v\<lparr>affects := \<lparr>affects_versions = vs, affects_ranges = ps\<rparr>\<rparr>) =
           Inr \<lparr>affects_versions = vs,
                affects_ranges = concat (map arr (first_seen (map range_key ps)))\<rparr> \<and>
         mset (concat (map arr (first_seen (map range_key ps)))) = mset ps"
proof -
  let ?ks = "first_seen (map range_key ps)"
  let ?R = "\<lambda>k. \<lparr>r_type = fst k,
               repo_url = (if fst k = ''GIT'' \<and> snd k \<noteq> [] then Some (snd k) else None),
               events = group_events ps k\<rparr>"
  let ?eco = "ecosystem (v_package v)"
  have m: "merged_ranges ps = map ?R ?ks" by (simp add: merged_ranges_def)
  have "\<forall>k \<in> set ?ks. \<forall>out. \<exists>r'. range_pairs sk eg ?eco (?R k) out = Inr (r', out @ arr k)"
  proof (intro ballI allI)
    fix k out
    assume "k \<in> set ?ks"
    with assms have "group_restored sk k (group_of ps k) (arr k)" by blast
    from range_pairs_group[OF this, of eg ?eco out]
    show "\<exists>r'. range_pairs sk eg ?eco (?R k) out = Inr (r', out @ arr k)"
      by (simp add: group_events_def group_of_def)
  qed
  from ranges_pairs_map[of ?ks sk eg ?eco ?R arr "[]", OF this] obtain rs' where
    "ranges_pairs sk eg ?eco (map ?R ?ks) [] = Inr (rs', concat (map arr ?ks))"
    by auto
  then have rt: "round_trip sk eg b (v\<lparr>affects := \<lparr>affects_versions = vs, affects_ranges = ps\<rparr>\<rparr>) =
           Inr \<lparr>affects_versions = vs, affects_ranges = concat (map arr ?ks)\<rparr>"
    by (simp add: round_trip_eq m)
  have "mset (arr k) = mset (group_of ps k)" if "k \<in> set ?ks" for k
  proof -
    from assms that have "group_restored sk k (group_of ps k) (arr k)" by blast
    then show ?thesis by (auto simp: group_restored_def split: if_splits)
  qed
  then have "(\<Sum>k\<leftarrow>?ks. mset (arr k)) = (\<Sum>k\<leftarrow>?ks. mset (group_of ps k))"
    by (intro arg_cong[where f = sum_list] map_cong refl) simp
  also have "\<dots> = mset ps"
    by (rule mset_groups) simp_all
  finally have "mset (concat (map arr ?ks)) = mset ps"
    by (simp add: mset_concat comp_def)
  with rt show ?thesis by simp
qed

lemma round_trip_git:
  fixes sk :: "string \<Rightarrow> 'k::linorder"
  assumes "git_input rp ps"
  shows "round_trip sk eg b (v\<lparr>affects := \<lparr>affects_versions = vs, affects_ranges = ps\<rparr>\<rparr>) =
           Inr \<lparr>affects_versions = vs, affects_ranges = ps\<rparr>"
proof (cases "ps = []")
  case True
  then show ?thesis
    by (simp add: round_trip_eq merged_ranges_def)
next
  case False
  from assms have "\<forall>p \<in> set ps. range_key p = (''GIT'', rp)"
    by (simp add: git_input_def range_key_def)
  then have ks: "first_seen (map range_key ps) = [(''GIT'', rp)]"
    and g: "group_of ps (''GIT'', rp) = ps"
    using False by (simp_all add: first_seen_constant group_of_def filter_id_conv)
  have "\<forall>k \<in> set (first_seen (map range_key ps)).
          group_restored sk k (group_of ps k) ((\<lambda>k. ps) k)"
    using assms by (simp add: ks g group_restored_def)
  from round_trip_groups[OF this, where eg = eg and b = b and v = v and vs = vs]
  show ?thesis
    by (simp add: ks)
qed

lemma round_trip_semver:
  fixes sk :: "string \<Rightarrow> 'k::linorder"
  assumes ch: "semver_chain sk ss" and ms: "mset ps = mset ss"
  shows "round_trip sk eg b (v\<lparr>affects := \<lparr>affects_versions = vs, affects_ranges = ps\<rparr>\<rparr>) =
           Inr \<lparr>affects_versions = vs, affects_ranges = ss\<rparr>"
proof (cases "ps = []")
  case True
  with ms have "ss = []" by simp
  with True show ?thesis
    by (simp add: round_trip_eq merged_ranges_def)
next
  case False
  from ms have "set ps = set ss" by (rule mset_eq_setD)
  with ch have "\<forall>p \<in> set ps. range_key p = (''SEMVER'', [])"
    by (simp add: semver_chain_def range_key_def)
  then have ks: "first_seen (map range_key ps) = [(''SEMVER'', [])]"
    and g: "group_of ps (''SEMVER'', []) = ps"
    using False by (simp_all add: first_seen_constant group_of_def filter_id_conv)
  have "\<forall>k \<in> set (first_seen (map range_key ps)).
          group_restored sk k (group_of ps k) ((\<lambda>k. ss) k)"
    using ch ms by (simp add: ks g group_restored_def)
  from round_trip_groups[OF this, where eg = eg and b = b and v = v and vs = vs]
  show ?thesis
    by (simp add: ks)
qed

text \<open>
  Two \<open>GIT\<close> pairs of one repository with the same fixed bound: the fixed event is kept
  once, and the second pair comes back without its fixed bound.
\<close>

theorem round_trip_counterexample:
  "round_trip id Map.empty example_bug
     (example_vulnerability
        [\<lparr>pb_type = GIT, repo = ''r'', introduced = ''a'', fixed = ''b''\<rparr>,
         \<lparr>pb_type = GIT, repo = ''r'', introduced = ''c'', fixed = ''b''\<rparr>]) =
   Inr \<lparr>affects_versions = [''1.0''],
        affects_ranges =
          [\<lparr>pb_type = GIT, repo = ''r'', introduced = ''a'', fixed = ''b''\<rparr>,
           \<lparr>pb_type = GIT, repo = ''r'', introduced = ''c'', fixed = []\<rparr>]\<rparr> \<and>
   mset [\<lparr>pb_type = GIT, repo = ''r'', introduced = ''a'', fixed = ''b''\<rparr>,
         \<lparr>pb_type = GIT, repo = ''r'', introduced = ''c'', fixed = []\<rparr>] \<noteq>
   mset [\<lparr>pb_type = GIT, repo = ''r'', introduced = ''a'', fixed = ''b''\<rparr>,
         \<lparr>pb_type = GIT, repo = ''r'', introduced = ''c'', fixed = ''b''\<rparr>]"
proof -
  let ?ps = "[\<lparr>pb_type = GIT, repo = ''r'', introduced = ''a'', fixed = ''b''\<rparr>,
              \<lparr>pb_type = GIT, repo = ''r'', introduced = ''c'', fixed = ''b''\<rparr>]"
  have m: "merged_ranges ?ps =
     [\<lparr>r_type = ''GIT'', repo_url = Some ''r'',
       events = [\<lparr>ev_type = ''introduced'', ev_value = ''a''\<rparr>,
                 \<lparr>ev_type = ''fixed'', ev_value = ''b''\<rparr>,
                 \<lparr>ev_type = ''introduced'', ev_value = ''c''\<rparr>]\<rparr>]"
    by (simp add: merged_ranges_def first_seen_def group_events_def range_key_def
        pair_events_def)
  have "round_trip id Map.empty example_bug (example_vulnerability ?ps) =
   Inr \<lparr>affects_versions = [''1.0''],
        affects_ranges =
          [\<lparr>pb_type = GIT, repo = ''r'', introduced = ''a'', fixed = ''b''\<rparr>,
           \<lparr>pb_type = GIT, repo = ''r'', introduced = ''c'', fixed = []\<rparr>]\<rparr>"
    by (simp add: round_trip_eq example_vulnerability_def m range_pairs_def new_range_def
        Type_Value_def sorted_events_def pair_event_def)
  then show ?thesis by simp
qed

text \<open>
  C1 (amended). Ingestion of a list of legacy pairs by \<open>update_from_vulnerability\<close>,
  followed by \<open>_get_pre_0_8_affects\<close>, gives the pairs back, as a multiset, when each
  \<open>(type, repository)\<close> group of the list is restored: a group of type \<open>GIT\<close> no two
  pairs of which share an event (their introduced bounds may overlap), each pair with an
  introduced bound other than \<open>0\<close> or, lacking one, a fixed bound, comes back as it is;
  the group of type \<open>SEMVER\<close> without repository, when its pairs do not overlap, comes
  back as its ascending arrangement. The export lists the groups in first-seen order. In
  particular a \<open>GIT\<close> input of one repository comes back as the same list, and a
  \<open>SEMVER\<close> input, given in any order, comes back in ascending order. The ranges that
  the record had before play no part.
\<close>

theorem round_trip_restores:
  fixes sk :: "string \<Rightarrow> 'k::linorder"
  shows
  "((\<forall>k \<in> set (first_seen (map range_key ps)). group_restored sk k (group_of ps k) (arr k)) \<longrightarrow>
      round_trip sk eg b (v\<lparr>affects := \<lparr>affects_versions = vs, affects_ranges = ps\<rparr>\<rparr>) =
        Inr \<lparr>affects_versions = vs,
             affects_ranges = concat (map arr (first_seen (map range_key ps)))\<rparr> \<and>
      mset (concat (map arr (first_seen (map range_key ps)))) = mset ps) \<and>
   (git_input rp gs \<longrightarrow>
      round_trip sk eg b (v\<lparr>affects := \<lparr>affects_versions = vs, affects_ranges = gs\<rparr>\<rparr>) =
        Inr \<lparr>affects_versions = vs, affects_ranges = gs\<rparr>) \<and>
   (semver_chain sk ss \<longrightarrow> mset qs = mset ss \<longrightarrow>
      round_trip sk eg b (v\<lparr>affects := \<lparr>affects_versions = vs, affects_ranges = qs\<rparr>\<rparr>) =
        Inr \<lparr>affects_versions = vs, affects_ranges = ss\<rparr> \<and>
      mset (affects_ranges \<lparr>affects_versions = vs, affects_ranges = ss\<rparr>) = mset qs)"
proof (intro conjI impI)
  assume a: "\<forall>k \<in> set (first_seen (map range_key ps)).
               group_restored sk k (group_of ps k) (arr k)"
  from round_trip_groups[OF a, where eg = eg and b = b and v = v and vs = vs]
  show "round_trip sk eg b (v\<lparr>affects := \<lparr>affects_versions = vs, affects_ranges = ps\<rparr>\<rparr>) =
        Inr \<lparr>affects_versions = vs,
             affects_ranges = concat (map arr (first_seen (map range_key ps)))\<rparr>"
    and "mset (concat (map arr (first_seen (map range_key ps)))) = mset ps"
    by simp_all
next
  assume "git_input rp gs"
  then show "round_trip sk eg b (v\<lparr>affects := \<lparr>affects_versions = vs, affects_ranges = gs\<rparr>\<rparr>) =
        Inr \<lparr>affects_versions = vs, affects_ranges = gs\<rparr>"
    by (rule round_trip_git)
next
  assume "semver_chain sk ss" and "mset qs = mset ss"
  then show "round_trip sk eg b (v\<lparr>affects := \<lparr>affects_versions = vs, affects_ranges = qs\<rparr>\<rparr>) =
        Inr \<lparr>affects_versions = vs, affects_ranges = ss\<rparr>"
    by (rule round_trip_semver)
next
  assume "mset qs = mset ss"
  then show "mset (affects_ranges \<lparr>affects_versions = vs, affects_ranges = ss\<rparr>) = mset qs"
    by simp
qed

theorem round_trip_restores_witness:
  "round_trip id Map.empty example_bug
     (example_vulnerability
        [\<lparr>pb_type = SEMVER, repo = [], introduced = ''3.0.0'', fixed = []\<rparr>,
         \<lparr>pb_type = GIT, repo = ''r'', introduced = ''a'', fixed = ''b''\<rparr>,
         \<lparr>pb_type = SEMVER, repo = [], introduced = [], fixed = ''1.2.0''\<rparr>,
         \<lparr>pb_type = GIT, repo = ''r'', introduced = ''c'', fixed = []\<rparr>]) =
   Inr \<lparr>affects_versions = [''1.0''],
        affects_ranges =
          [\<lparr>pb_type = SEMVER, repo = [], introduced = [], fixed = ''1.2.0''\<rparr>,
           \<lparr>pb_type = SEMVER, repo = [], introduced = ''3.0.0'', fixed = []\<rparr>,
           \<lparr>pb_type = GIT, repo = ''r'', introduced = ''a'', fixed = ''b''\<rparr>,
           \<lparr>pb_type = GIT, repo = ''r'', introduced = ''c'', fixed = []\<rparr>]\<rparr> \<and>
   round_trip id Map.empty example_bug
     (example_vulnerability
        [\<lparr>pb_type = GIT, repo = ''r'', introduced = ''a'', fixed = ''b''\<rparr>,
         \<lparr>pb_type = GIT, repo = ''r'', introduced = ''c'', fixed = []\<rparr>,
         \<lparr>pb_type = GIT, repo = ''r'', introduced = ''d'', fixed = ''e''\<rparr>]) =
   Inr \<lparr>affects_versions = [''1.0''],
        affects_ranges =
          [\<lparr>pb_type = GIT, repo = ''r'', introduced = ''a'', fixed = ''b''\<rparr>,
           \<lparr>pb_type = GIT, repo = ''r'', introduced = ''c'', fixed = []\<rparr>,
           \<lparr>pb_type = GIT, repo = ''r'', introduced = ''d'', fixed = ''e''\<rparr>]\<rparr> \<and>
   round_trip id Map.empty example_bug
     (example_vulnerability
        [\<lparr>pb_type = SEMVER, repo = [], introduced = ''3.0.0'', fixed = []\<rparr>,
         \<lparr>pb_type = SEMVER, repo = [], introduced = [], fixed = ''1.2.0''\<rparr>,
         \<lparr>pb_type = SEMVER, repo = [], introduced = ''2.0.0'', fixed = ''2.5.1''\<rparr>]) =
   Inr \<lparr>affects_versions = [''1.0''],
        affects_ranges =
          [\<lparr>pb_type = SEMVER, repo = [], introduced = [], fixed = ''1.2.0''\<rparr>,
           \<lparr>pb_type = SEMVER, repo = [], introduced = ''2.0.0'', fixed = ''2.5.1''\<rparr>,
           \<lparr>pb_type = SEMVER, repo = [], introduced = ''3.0.0'', fixed = []\<rparr>]\<rparr>"
proof -
  let ?s1 = "\<lparr>pb_type = SEMVER, repo = [], introduced = [], fixed = ''1.2.0''\<rparr>"
  let ?s2 = "\<lparr>pb_type = SEMVER, repo = [], introduced = ''2.0.0'', fixed = ''2.5.1''\<rparr>"
  let ?s3 = "\<lparr>pb_type = SEMVER, repo = [], introduced = ''3.0.0'', fixed = []\<rparr>"
  let ?g1 = "\<lparr>pb_type = GIT, repo = ''r'', introduced = ''a'', fixed = ''b''\<rparr>"
  let ?g2 = "\<lparr>pb_type = GIT, repo = ''r'', introduced = ''c'', fixed = []\<rparr>"
  let ?g3 = "\<lparr>pb_type = GIT, repo = ''r'', introduced = ''d'', fixed = ''e''\<rparr>"
  let ?ps = "[?s3, ?g1, ?s1, ?g2]"
  let ?arr = "\<lambda>k::string \<times> string. if fst k = ''GIT'' then [?g1, ?g2] else [?s1, ?s3]"
  have ks: "first_seen (map range_key ?ps) = [(''SEMVER'', []), (''GIT'', ''r'')]"
    by (simp add: first_seen_def range_key_def)
  have r1: "group_restored (id :: string \<Rightarrow> string) (''SEMVER'', [])
              (group_of ?ps (''SEMVER'', [])) (?arr (''SEMVER'', []))"
    by (simp add: group_restored_def group_of_def range_key_def semver_chain_def
        well_paired_def bounds_def add_mset_commute)
  have r2: "group_restored (id :: string \<Rightarrow> string) (''GIT'', ''r'')
              (group_of ?ps (''GIT'', ''r'')) (?arr (''GIT'', ''r''))"
    by (simp add: group_restored_def group_of_def range_key_def git_input_def
        well_paired_def pair_events_def)
  have a: "\<forall>k \<in> set (first_seen (map range_key ?ps)).
             group_restored (id :: string \<Rightarrow> string) k (group_of ?ps k) (?arr k)"
    unfolding ks using r1 r2 by simp
  have g: "git_input ''r'' [?g1, ?g2, ?g3]"
    by (simp add: git_input_def well_paired_def pair_events_def)
  have c: "semver_chain (id :: string \<Rightarrow> string) [?s1, ?s2, ?s3]"
    by (simp add: semver_chain_def well_paired_def bounds_def)
  have m: "mset [?s3, ?s1, ?s2] = mset [?s1, ?s2, ?s3]"
    by (simp add: add_mset_commute)
  from round_trip_restores[where ps = ?ps and arr = ?arr and sk = "id :: string \<Rightarrow> string"
      and rp = "''r''" and gs = "[?g1, ?g2, ?g3]"
      and eg = Map.empty and b = example_bug and v = "example_vulnerability []"
      and vs = "[''1.0'']" and ss = "[?s1, ?s2, ?s3]" and qs = "[?s3, ?s1, ?s2]"] a g c m
  have 1: "round_trip (id :: string \<Rightarrow> string) Map.empty example_bug
             (example_vulnerability []
                \<lparr>affects := \<lparr>affects_versions = [''1.0''], affects_ranges = ?ps\<rparr>\<rparr>) =
           Inr \<lparr>affects_versions = [''1.0''],
                affects_ranges = concat (map ?arr (first_seen (map range_key ?ps)))\<rparr>"
    and 2: "round_trip (id :: string \<Rightarrow> string) Map.empty example_bug
             (example_vulnerability []
                \<lparr>affects := \<lparr>affects_versions = [''1.0''],
                              affects_ranges = [?g1, ?g2, ?g3]\<rparr>\<rparr>) =
           Inr \<lparr>affects_versions = [''1.0''], affects_ranges = [?g1, ?g2, ?g3]\<rparr>"
    and 3: "round_trip (id :: string \<Rightarrow> string) Map.empty example_bug
             (example_vulnerability []
                \<lparr>affects := \<lparr>affects_versions = [''1.0''],
                              affects_ranges = [?s3, ?s1, ?s2]\<rparr>\<rparr>) =
           Inr \<lparr>affects_versions = [''1.0''], affects_ranges = [?s1, ?s2, ?s3]\<rparr>"
    by blast+
  from 1 have "round_trip (id :: string \<Rightarrow> string) Map.empty example_bug
             (example_vulnerability []
                \<lparr>affects := \<lparr>affects_versions = [''1.0''], affects_ranges = ?ps\<rparr>\<rparr>) =
           Inr \<lparr>affects_versions = [''1.0''],
                affects_ranges = concat (map ?arr [(''SEMVER'', []), (''GIT'', ''r'')])\<rparr>"
    by (simp only: ks)
  with 2 3 show ?thesis
    by (simp add: example_vulnerability_def)
qed

end
